theory Spec2Isabelle
  imports Main "HOL-Library.AList" "HOL-Library.Finite_Map"
begin

section \<open>Data model\<close>

text \<open>
  The program (index.js) submits one Athena query per file, keeps the file objects in a
  dictionary keyed by query id, polls the service for the queued and running ones, and writes
  the dictionary's values to results.json when none is left or when Ctrl-C is pressed.

  A query's state is the service's \<open>QueryExecutionState\<close>; the program itself only ever
  writes "QUEUED" and "FAILED" and otherwise copies the state the service reports.
\<close>

datatype status = QUEUED | RUNNING | SUCCEEDED | FAILED | CANCELLED

text \<open>
  The objects \<open>readFiles\<close> resolves with: \<open>{"name": filename, "query": content}\<close>.
\<close>

record query_file =
  name :: string
  query :: string

text \<open>
  \<open>executeQueries\<close> and \<open>monitor\<close> add properties to the same objects. A property that
  was never assigned, or was assigned \<open>undefined\<close>, is \<open>None\<close>. The field \<open>id_job\<close> is the
  property \<open>id\<close>. The two times that \<open>monitor\<close> copies from the service's answer are
  \<open>Date\<close> objects (the SDK's timestamps): a \<open>Date\<close> is its time value, the milliseconds
  since 1970-01-01T00:00:00Z. The numbers are the service's integers.
\<close>

datatype date = Date int

record job = query_file +
  id_job :: "string option"
  status :: status
  error :: "string option"
  starttime :: "date option"
  endtime :: "date option"
  runtime :: "int option"
  scanned :: "int option"

text \<open>
  A dictionary object: its keys in the order \<open>Object.keys\<close> lists them, each once, with
  the value stored under each. (Keys that look like array indices would be listed first by
  JavaScript; Athena's ids are UUIDs and the other key that occurs is "undefined".)
\<close>

type_synonym registry = "(string \<times> job) list"

definition Object_keys :: "(string \<times> 'a) list \<Rightarrow> string list" where
  "Object_keys obj = map fst obj"

definition Object_values :: "(string \<times> 'a) list \<Rightarrow> 'a list" where
  "Object_values obj = map snd obj"

datatype error = TypeError | ServiceError string

section \<open>Submission\<close>

text \<open>
  The callback of \<open>athena.startQueryExecution\<close> (lines 103 to 113): the reply is either
  \<open>err\<close>, of which only \<open>err.message\<close> is read, or \<open>results\<close>, of which only
  \<open>results.QueryExecutionId\<close> is read. The promise resolves with the file in both cases.
\<close>

definition startQueryExecution_callback :: "string + string \<Rightarrow> query_file \<Rightarrow> job" where
  "startQueryExecution_callback reply f =
     (case reply of
        Inl message \<Rightarrow>
          \<lparr>name = name f, query = query f, id_job = None, status = FAILED,
           error = Some message, starttime = None, endtime = None, runtime = None,
           scanned = None\<rparr>
      | Inr QueryExecutionId \<Rightarrow>
          \<lparr>name = name f, query = query f, id_job = Some QueryExecutionId,
           status = QUEUED, error = None, starttime = None, endtime = None, runtime = None,
           scanned = None\<rparr>)"

text \<open>
  \<open>executeQueries\<close>: one request per file, \<open>Promise.all\<close> keeps the files' order. The
  service is the function \<open>athena\<close> from the position of the request to its reply.
\<close>

definition executeQueries :: "(nat \<Rightarrow> string + string) \<Rightarrow> query_file list \<Rightarrow> job list" where
  "executeQueries athena files =
     map (\<lambda>(i, f). startQueryExecution_callback (athena i) f) (enumerate 0 files)"

text \<open>
  \<open>idx[task.id] = task\<close>: the property key is the string of \<open>task.id\<close>, and the string of
  \<open>undefined\<close> is "undefined". Assigning to a key the object already has replaces the value
  and keeps the key's place; a new key goes last.
\<close>

definition property_key :: "string option \<Rightarrow> string" where
  "property_key v = (case v of None \<Rightarrow> ''undefined'' | Some s \<Rightarrow> s)"

definition indexTasks :: "job list \<Rightarrow> registry" where
  "indexTasks tasks = fold (\<lambda>task idx. AList.update (property_key (id_job task)) task idx) tasks []"

section \<open>Polling\<close>

text \<open>
  \<open>getRunningJobs\<close> reads \<open>tasks[k]\<close> for every key \<open>k\<close> in turn, that is the values in
  key order, and pushes \<open>task.id\<close> (which may be \<open>undefined\<close>) of every one whose status is
  "QUEUED" or "RUNNING".
\<close>

definition getRunningJobs :: "registry \<Rightarrow> string option list" where
  "getRunningJobs tasks =
     map id_job (filter (\<lambda>task. status task = QUEUED \<or> status task = RUNNING) (Object_values tasks))"

text \<open>
  What \<open>monitor\<close> reads of one element of \<open>results.QueryExecutions\<close>:
  \<open>item.QueryExecutionId\<close>, \<open>item.Status.State\<close>, \<open>item.Status.SubmissionDateTime\<close>,
  \<open>item.Status.CompletionDateTime\<close>, \<open>item.Statistics.EngineExecutionTimeInMillis\<close> and
  \<open>item.Statistics.DataScannedInBytes\<close>; and of one element of
  \<open>results.UnprocessedQueryExecutionIds\<close> what \<open>consolidateJobs\<close> reads:
  \<open>i.QueryExecutionId\<close> (the field \<open>UnprocessedId\<close>) and \<open>i.ErrorMessage\<close>.
\<close>

record QueryExecution =
  QueryExecutionId :: string
  State :: status
  SubmissionDateTime :: "date option"
  CompletionDateTime :: "date option"
  EngineExecutionTimeInMillis :: "int option"
  DataScannedInBytes :: "int option"

record unprocessed =
  UnprocessedId :: string
  ErrorMessage :: "string option"

record results =
  QueryExecutions :: "QueryExecution list"
  UnprocessedQueryExecutionIds :: "unprocessed list"

text \<open>The two arguments of the service's callback: \<open>Inl err\<close> or \<open>Inr results\<close>.\<close>

type_synonym reply = "error + results"

text \<open>
  \<open>forEach\<close> with a body that may throw: the first exception ends the loop, and what was
  written before it stays written (the state at the exception is not looked at again).
\<close>

fun forEach :: "('a \<Rightarrow> 's \<Rightarrow> error + 's) \<Rightarrow> 'a list \<Rightarrow> 's \<Rightarrow> error + 's" where
  "forEach body [] s = Inr s"
| "forEach body (x # xs) s = (case body x s of Inl e \<Rightarrow> Inl e | Inr s' \<Rightarrow> forEach body xs s')"

text \<open>
  Lines 160 to 168, the body of the loop over \<open>results.QueryExecutions\<close>. When the
  dictionary has no such key, \<open>t\<close> is \<open>undefined\<close> and \<open>t.status = ...\<close> throws.
\<close>

definition monitor_item :: "QueryExecution \<Rightarrow> registry \<Rightarrow> error + registry" where
  "monitor_item item tasks =
     (case map_of tasks (QueryExecutionId item) of
        None \<Rightarrow> Inl TypeError
      | Some t \<Rightarrow>
          (let t1 = t\<lparr>status := State item\<rparr>;
               t2 = (if status t1 = SUCCEEDED \<or> status t1 = RUNNING
                     then t1\<lparr>starttime := SubmissionDateTime item,
                             endtime := CompletionDateTime item,
                             runtime := EngineExecutionTimeInMillis item,
                             scanned := DataScannedInBytes item\<rparr>
                     else t1)
           in Inr (AList.update (QueryExecutionId item) t2 tasks)))"

text \<open>
  What \<open>monitor\<close>'s promise comes to. \<open>runs\<close> is the dictionary \<open>monitor\<close> was given, as
  the loop left it: the same object, which the caller still holds as \<open>jobIndex\<close>.
  An exception inside the service's callback is neither a resolution nor a rejection of
  the promise: it is \<open>Thrown\<close>.
\<close>

record jobs =
  runs :: registry
  failed :: "unprocessed list"

datatype 'a settled = Resolved 'a | Rejected error | Thrown error

text \<open>Lines 157 to 171: the callback of \<open>athena.batchGetQueryExecution\<close>.\<close>

definition batchGetQueryExecution_callback :: "reply \<Rightarrow> registry \<Rightarrow> jobs option settled" where
  "batchGetQueryExecution_callback r tasks =
     (case r of
        Inl err \<Rightarrow> Rejected err
      | Inr results \<Rightarrow>
          (case forEach monitor_item (QueryExecutions results) tasks of
             Inl e \<Rightarrow> Thrown e
           | Inr tasks' \<Rightarrow>
               Resolved (Some \<lparr>runs = tasks', failed = UnprocessedQueryExecutionIds results\<rparr>)))"

text \<open>
  \<open>monitor\<close> with the service as a function from the ids asked about to its reply; the
  function is applied only when a request is made.
\<close>

definition monitor :: "(string option list \<Rightarrow> reply) \<Rightarrow> registry \<Rightarrow> jobs option settled" where
  "monitor athena tasks =
     (let ids = getRunningJobs tasks
      in if length ids > 0 then batchGetQueryExecution_callback (athena ids) tasks
         else Resolved None)"

text \<open>
  \<open>consolidateJobs\<close>. The first loop stores \<open>jobs.runs[k]\<close> under every key \<open>k\<close> of
  \<open>jobIndex\<close>, which is \<open>undefined\<close> where \<open>jobs.runs\<close> has no such key: the result is a
  dictionary whose values may be \<open>undefined\<close>. The second loop throws at a key that is
  missing or holds \<open>undefined\<close>.
\<close>

type_synonym slots = "(string \<times> job option) list"

definition consolidate_failed :: "unprocessed \<Rightarrow> slots \<Rightarrow> error + slots" where
  "consolidate_failed i jobIndex =
     (case map_of jobIndex (UnprocessedId i) of
        Some (Some t) \<Rightarrow>
          Inr (AList.update (UnprocessedId i)
                 (Some (t\<lparr>status := FAILED, error := ErrorMessage i\<rparr>)) jobIndex)
      | _ \<Rightarrow> Inl TypeError)"

definition consolidateJobs :: "registry \<Rightarrow> jobs \<Rightarrow> error + slots" where
  "consolidateJobs jobIndex jobs =
     (let ids = Object_keys jobIndex;
          jobIndex1 = map (\<lambda>k. (k, map_of (runs jobs) k)) ids
      in forEach consolidate_failed (failed jobs) jobIndex1)"

text \<open>
  \<open>draw\<close> prints the table; of it the model keeps that \<open>item.status\<close> throws when a value
  of the dictionary is \<open>undefined\<close>, and the values it found otherwise.
\<close>

definition draw :: "slots \<Rightarrow> error + registry" where
  "draw r = (if list_all (\<lambda>(k, item). item \<noteq> None) r
             then Inr (List.map_filter (\<lambda>(k, item). map_option (Pair k) item) r)
             else Inl TypeError)"

section \<open>The results document\<close>

text \<open>
  \<open>finishUp\<close> writes \<open>JSON.stringify(Object.values(jobs))\<close>. The text written is kept as
  the JSON value it denotes: an array keeps the order of its elements, and the members of
  an object are a finite map from names to values, without an order.
\<close>

datatype json = JNull | JString string | JNumber int | JArray "json list"
  | JObject "(string, json) fmap"

text \<open>
  The values that a property of a job object, or of an object read back from the document,
  can have.
\<close>

datatype js_value = Undefined | Null | Str string | Num int | DateObject date

definition status_name :: "status \<Rightarrow> string" where
  "status_name st =
     (case st of QUEUED \<Rightarrow> ''QUEUED'' | RUNNING \<Rightarrow> ''RUNNING'' | SUCCEEDED \<Rightarrow> ''SUCCEEDED''
      | FAILED \<Rightarrow> ''FAILED'' | CANCELLED \<Rightarrow> ''CANCELLED'')"

definition optional :: "('a \<Rightarrow> js_value) \<Rightarrow> 'a option \<Rightarrow> js_value" where
  "optional con v = (case v of None \<Rightarrow> Undefined | Some x \<Rightarrow> con x)"

text \<open>
  The job as the JavaScript object it is: \<open>own_properties t k\<close> is \<open>t[k]\<close>, which is
  \<open>undefined\<close> for a name that was not assigned. \<open>property_names\<close> are the names that the
  program assigns to these objects; the order in which an object got them is not kept by
  the record, and nothing below depends on the order of this list.
\<close>

definition own_properties :: "job \<Rightarrow> string \<Rightarrow> js_value" where
  "own_properties t k =
     (if k = ''name'' then Str (name t)
      else if k = ''query'' then Str (query t)
      else if k = ''id'' then optional Str (id_job t)
      else if k = ''status'' then Str (status_name (status t))
      else if k = ''error'' then optional Str (error t)
      else if k = ''starttime'' then optional DateObject (starttime t)
      else if k = ''endtime'' then optional DateObject (endtime t)
      else if k = ''runtime'' then optional Num (runtime t)
      else if k = ''scanned'' then optional Num (scanned t)
      else Undefined)"

definition property_names :: "string list" where
  "property_names =
     [''name'', ''query'', ''id'', ''status'', ''error'', ''starttime'', ''endtime'', ''runtime'',
      ''scanned'']"

text \<open>
  \<open>Date.prototype.toISOString\<close>, which \<open>JSON.stringify\<close> calls through \<open>toJSON\<close>: the
  time value as year, month and day (of the proleptic Gregorian calendar, in UTC) and the
  time of the day. A year outside 0 to 9999 is written with a sign and six digits.
\<close>

definition digit :: "int \<Rightarrow> char" where
  "digit n = ''0123456789'' ! nat (n mod 10)"

definition digits2 :: "int \<Rightarrow> string" where
  "digits2 n = [digit (n div 10), digit n]"

definition digits3 :: "int \<Rightarrow> string" where
  "digits3 n = [digit (n div 100), digit (n div 10), digit n]"

definition digits4 :: "int \<Rightarrow> string" where
  "digits4 n = [digit (n div 1000), digit (n div 100), digit (n div 10), digit n]"

definition digits6 :: "int \<Rightarrow> string" where
  "digits6 n =
     [digit (n div 100000), digit (n div 10000), digit (n div 1000), digit (n div 100),
      digit (n div 10), digit n]"

definition year_month_day :: "int \<Rightarrow> int \<times> int \<times> int" where
  "year_month_day day =
     (let z = day + 719468;
          era = z div 146097;
          doe = z mod 146097;
          yoe = (doe - doe div 1460 + doe div 36524 - doe div 146096) div 365;
          doy = doe - (365 * yoe + yoe div 4 - yoe div 100);
          mp = (5 * doy + 2) div 153;
          d = doy - (153 * mp + 2) div 5 + 1;
          m = (if mp < 10 then mp + 3 else mp - 9);
          y = yoe + era * 400 + (if m \<le> 2 then 1 else 0)
      in (y, m, d))"

definition toISOString :: "date \<Rightarrow> string" where
  "toISOString d =
     (case d of Date t \<Rightarrow>
        (case year_month_day (t div 86400000) of (y, m, dd) \<Rightarrow>
           (let ms = t mod 86400000;
                year = (if 0 \<le> y \<and> y \<le> 9999 then digits4 y
                        else (if 0 \<le> y then ''+'' else ''-'') @ digits6 \<bar>y\<bar>)
            in year @ ''-'' @ digits2 m @ ''-'' @ digits2 dd @ ''T'' @ digits2 (ms div 3600000)
               @ '':'' @ digits2 (ms div 60000 mod 60) @ '':'' @ digits2 (ms div 1000 mod 60)
               @ ''.'' @ digits3 (ms mod 1000) @ ''Z'')))"

text \<open>
  What \<open>JSON.stringify\<close> writes for the value of a property: nothing for \<open>undefined\<close> (the
  property is left out), a string and a number as they are, and a \<open>Date\<close> as the string
  that \<open>toISOString\<close> gives.
\<close>

definition stringify_value :: "js_value \<Rightarrow> json option" where
  "stringify_value v =
     (case v of Undefined \<Rightarrow> None | Null \<Rightarrow> Some JNull | Str x \<Rightarrow> Some (JString x)
      | Num n \<Rightarrow> Some (JNumber n) | DateObject d \<Rightarrow> Some (JString (toISOString d)))"

definition stringify_job :: "job \<Rightarrow> json" where
  "stringify_job t =
     JObject (fmap_of_list
       (List.map_filter (\<lambda>k. map_option (Pair k) (stringify_value (own_properties t k)))
          property_names))"

definition JSON_stringify :: "job list \<Rightarrow> json" where
  "JSON_stringify ts = JArray (map stringify_job ts)"

section \<open>The process\<close>

text \<open>
  The state of the running program, as far as the claims look at it:
  \<^item> \<open>jobIndex\<close>: the dictionary object that \<open>indexTasks\<close> made. The variable \<open>jobIndex\<close>
    refers to this one object throughout, since \<open>consolidateJobs\<close> returns the object it
    was given;
  \<^item> \<open>INDEX_assigned\<close>: whether the global \<open>INDEX\<close> has been assigned. It starts as
    \<open>undefined\<close> and is only ever assigned \<open>jobIndex\<close>, so once assigned it is another name
    of the same object;
  \<^item> \<open>process\<close>: running, ended by \<open>process.exit(code)\<close>, or ended by an exception that
    nothing caught;
  \<^item> \<open>results_json\<close>: what has been written to results.json;
  \<^item> \<open>calls\<close>: the requests made to the service so far (after submission);
  \<^item> \<open>polls\<close>: the batched status requests whose callback has not run yet;
  \<^item> \<open>cancels\<close>: for each run of the SIGINT handler that made requests, how many of its
    promises are still pending.
\<close>

datatype process = Running | Exited int | Crashed error

datatype call = BatchGetQueryExecution "string option list" | StopQueryExecution "string option"

record state =
  jobIndex :: registry
  INDEX_assigned :: bool
  process :: process
  results_json :: "json option"
  calls :: "call list"
  polls :: nat
  cancels :: "nat list"

text \<open>\<open>finishUp\<close>: write the document, then \<open>process.exit(0)\<close>, which does not return.\<close>

definition finishUp :: "registry \<Rightarrow> state \<Rightarrow> state" where
  "finishUp js s =
     s\<lparr>results_json := Some (JSON_stringify (Object_values js)), process := Exited 0\<rparr>"

text \<open>
  Lines 291 to 299: what the interval's callback does once \<open>monitor\<close>'s promise has
  settled. On a resolution with jobs, \<open>monitor\<close>'s loop has already written to the
  dictionary (\<open>runs\<close> is that object). An exception of \<open>consolidateJobs\<close> or \<open>draw\<close> is
  caught and ends the process with code 1, as a rejection does.
\<close>

definition interval_settled :: "jobs option settled \<Rightarrow> state \<Rightarrow> state" where
  "interval_settled m s =
     (case m of
        Rejected e \<Rightarrow> s\<lparr>process := Exited 1\<rparr>
      | Thrown e \<Rightarrow> s\<lparr>process := Crashed e\<rparr>
      | Resolved None \<Rightarrow> finishUp (jobIndex s) s
      | Resolved (Some jobs) \<Rightarrow>
          (let s1 = s\<lparr>jobIndex := runs jobs\<rparr>
           in case consolidateJobs (jobIndex s1) jobs of
                Inl e \<Rightarrow> s1\<lparr>process := Exited 1\<rparr>
              | Inr consolidated \<Rightarrow>
                  (case draw consolidated of
                     Inl e \<Rightarrow> s1\<lparr>INDEX_assigned := True, process := Exited 1\<rparr>
                   | Inr r \<Rightarrow> s1\<lparr>jobIndex := r, INDEX_assigned := True\<rparr>)))"

text \<open>
  The timer fires: the callback calls \<open>monitor(jobIndex)\<close>, which either makes the batched
  request and waits for its callback, or resolves with \<open>undefined\<close> at once.
\<close>

definition timer_fires :: "state \<Rightarrow> state" where
  "timer_fires s =
     (let ids = getRunningJobs (jobIndex s)
      in if length ids > 0
         then s\<lparr>calls := calls s @ [BatchGetQueryExecution ids], polls := Suc (polls s)\<rparr>
         else interval_settled (Resolved None) s)"

text \<open>The service answers a batched request: its callback runs, then the rest of the cycle.\<close>

definition poll_answered :: "reply \<Rightarrow> state \<Rightarrow> state" where
  "poll_answered r s =
     interval_settled (batchGetQueryExecution_callback r (jobIndex s)) (s\<lparr>polls := polls s - 1\<rparr>)"

text \<open>
  Lines 324 to 343, the SIGINT handler. \<open>getRunningJobs(INDEX)\<close> calls
  \<open>Object.keys(INDEX)\<close>, which throws when \<open>INDEX\<close> is \<open>undefined\<close>; nothing catches it.
  With no id, \<open>Promise.all([])\<close> is resolved already and \<open>finishUp(INDEX)\<close> follows
  before any other event.
\<close>

definition SIGINT :: "state \<Rightarrow> state" where
  "SIGINT s =
     (if \<not> INDEX_assigned s then s\<lparr>process := Crashed TypeError\<rparr>
      else
        (let ids = getRunningJobs (jobIndex s);
             s1 = s\<lparr>calls := calls s @ map StopQueryExecution ids\<rparr>
         in if ids = [] then finishUp (jobIndex s1) s1
            else s1\<lparr>cancels := cancels s1 @ [length ids]\<rparr>))"

text \<open>
  The callback of one \<open>athena.stopQueryExecution\<close> of the handler's run number \<open>b\<close>:
  it resolves its promise whatever \<open>err\<close> is. When it was the last one pending,
  \<open>Promise.all\<close> resolves and \<open>finishUp(INDEX)\<close> runs.
\<close>

definition stop_answered :: "nat \<Rightarrow> state \<Rightarrow> state" where
  "stop_answered b s =
     (if b < length (cancels s) \<and> 0 < cancels s ! b
      then (let s1 = s\<lparr>cancels := (cancels s)[b := cancels s ! b - 1]\<rparr>
            in if cancels s1 ! b = 0 then finishUp (jobIndex s1) s1 else s1)
      else s)"

text \<open>
  The events of the event loop. Each handler runs to its end before the next event; an
  ended process handles nothing; an answer needs a pending request.
\<close>

datatype event = Tick | PollAnswer reply | Interrupt | StopAnswer nat "error option"

definition step :: "event \<Rightarrow> state \<Rightarrow> state" where
  "step e s =
     (if process s \<noteq> Running then s
      else case e of
             Tick \<Rightarrow> timer_fires s
           | PollAnswer r \<Rightarrow> (if 0 < polls s then poll_answered r s else s)
           | Interrupt \<Rightarrow> SIGINT s
           | StopAnswer b err \<Rightarrow> stop_answered b s)"

definition run_events :: "event list \<Rightarrow> state \<Rightarrow> state" where
  "run_events es s = fold step es s"

text \<open>\<open>run\<close> up to the first tick: the state in which the interval is started.\<close>

definition run :: "(nat \<Rightarrow> string + string) \<Rightarrow> query_file list \<Rightarrow> state" where
  "run athena files =
     \<lparr>jobIndex = indexTasks (executeQueries athena files), INDEX_assigned = False,
      process = Running, results_json = None, calls = [], polls = 0, cancels = []\<rparr>"

text \<open>
  One polling cycle with nothing in between: the timer fires and, when a request was made,
  the service answers it.
\<close>

definition cycle :: "(string option list \<Rightarrow> reply) \<Rightarrow> state \<Rightarrow> state" where
  "cycle athena s =
     (let s1 = step Tick s
      in if process s1 = Running \<and> polls s < polls s1
         then step (PollAnswer (athena (getRunningJobs (jobIndex s)))) s1
         else s1)"

section \<open>Vocabulary of the properties\<close>

text \<open>The three states the service never leaves.\<close>

definition terminal :: "status \<Rightarrow> bool" where
  "terminal st = (st = SUCCEEDED \<or> st = FAILED \<or> st = CANCELLED)"

text \<open>
  Applying one successful poll result to the dictionary: the loop of \<open>monitor\<close>'s callback,
  then \<open>consolidateJobs\<close> on the object the loop wrote to, then \<open>draw\<close>; an exception of
  any of them is the \<open>Inl\<close>.
\<close>

definition apply_results :: "results \<Rightarrow> registry \<Rightarrow> error + registry" where
  "apply_results out tasks =
     (case batchGetQueryExecution_callback (Inr out) tasks of
        Resolved (Some jobs) \<Rightarrow>
          (case consolidateJobs (runs jobs) jobs of Inl e \<Rightarrow> Inl e | Inr c \<Rightarrow> draw c)
      | Resolved None \<Rightarrow> Inr tasks
      | Rejected e \<Rightarrow> Inl e
      | Thrown e \<Rightarrow> Inl e)"

text \<open>The ids a poll result says something about.\<close>

definition mentioned :: "results \<Rightarrow> string list" where
  "mentioned out =
     map QueryExecutionId (QueryExecutions out) @ map UnprocessedId (UnprocessedQueryExecutionIds out)"

text \<open>
  A dictionary as \<open>indexTasks\<close> builds it: every key once, and every job under the key
  that its \<open>id\<close> gives.
\<close>

definition indexed :: "registry \<Rightarrow> bool" where
  "indexed r =
     (distinct (Object_keys r) \<and> list_all (\<lambda>(k, t). k = property_key (id_job t)) r)"

text \<open>
  The ids that the batched status requests made after the first \<open>n\<close> requests of the run
  have asked about; and, of a list of events handled from a state on, that every successful
  answer to a status request names only ids that a status request made after those first
  \<open>n\<close> has asked about.
\<close>

definition requested_since :: "nat \<Rightarrow> state \<Rightarrow> string option list" where
  "requested_since n s =
     concat (List.map_filter (\<lambda>c. case c of BatchGetQueryExecution ids \<Rightarrow> Some ids | _ \<Rightarrow> None)
               (drop n (calls s)))"

fun answers_since :: "nat \<Rightarrow> event list \<Rightarrow> state \<Rightarrow> bool" where
  "answers_since n [] s = True"
| "answers_since n (e # es) s =
     ((case e of
         PollAnswer (Inr out) \<Rightarrow> list_all (\<lambda>k. Some k \<in> set (requested_since n s)) (mentioned out)
       | _ \<Rightarrow> True)
      \<and> answers_since n es (step e s))"

text \<open>How many of the events are answers to the cancellation requests of the handler's run \<open>b\<close>.\<close>

definition stop_answers :: "nat \<Rightarrow> event list \<Rightarrow> nat" where
  "stop_answers b es = length (filter (\<lambda>e. case e of StopAnswer b' err \<Rightarrow> b' = b | _ \<Rightarrow> False) es)"

text \<open>
  The ids of the cancellation requests among the requests made, in the order they were made;
  and, of a list of events, that each is a tick of the timer or an answer to a cancellation
  request of the handler's run \<open>b\<close>.
\<close>

definition stop_requests :: "call list \<Rightarrow> string option list" where
  "stop_requests cs =
     List.map_filter (\<lambda>c. case c of StopQueryExecution i \<Rightarrow> Some i | _ \<Rightarrow> None) cs"

definition ticks_and_answers :: "nat \<Rightarrow> event list \<Rightarrow> bool" where
  "ticks_and_answers b es =
     list_all (\<lambda>e. case e of Tick \<Rightarrow> True | StopAnswer b' err \<Rightarrow> b' = b | _ \<Rightarrow> False) es"

subsection \<open>A poll result as a list of assignments\<close>

text \<open>
  The two loop bodies, of \<open>monitor\<close>'s callback and of \<open>consolidateJobs\<close>, each look a
  job up by an id and assign to some of its properties. \<open>overwrite\<close> is what the body does
  to the job, \<open>write_job\<close> the body, and \<open>writes\<close> the bodies that a poll result leads to
  in the order they run. \<open>defined\<close> is a dictionary none of whose values is \<open>undefined\<close>.
\<close>

datatype assignment = Reported QueryExecution | Refused unprocessed

fun target :: "assignment \<Rightarrow> string" where
  "target (Reported item) = QueryExecutionId item"
| "target (Refused i) = UnprocessedId i"

fun overwrite :: "assignment \<Rightarrow> job \<Rightarrow> job" where
  "overwrite (Reported item) t =
     (if State item = SUCCEEDED \<or> State item = RUNNING
      then t\<lparr>status := State item, starttime := SubmissionDateTime item,
             endtime := CompletionDateTime item, runtime := EngineExecutionTimeInMillis item,
             scanned := DataScannedInBytes item\<rparr>
      else t\<lparr>status := State item\<rparr>)"
| "overwrite (Refused i) t = t\<lparr>status := FAILED, error := ErrorMessage i\<rparr>"

definition write_job :: "assignment \<Rightarrow> registry \<Rightarrow> error + registry" where
  "write_job w r =
     (case map_of r (target w) of
        None \<Rightarrow> Inl TypeError
      | Some t \<Rightarrow> Inr (AList.update (target w) (overwrite w t) r))"

definition writes :: "results \<Rightarrow> assignment list" where
  "writes out = map Reported (QueryExecutions out) @ map Refused (UnprocessedQueryExecutionIds out)"

definition defined :: "registry \<Rightarrow> slots" where
  "defined r = map (\<lambda>(k, t). (k, Some t)) r"

text \<open>The successful answers to batched status requests among the events.\<close>

definition poll_results :: "event list \<Rightarrow> results list" where
  "poll_results es =
     List.map_filter (\<lambda>e. case e of PollAnswer (Inr out) \<Rightarrow> Some out | _ \<Rightarrow> None) es"

subsection \<open>Reading the document back\<close>

text \<open>
  What a reader of results.json gets: \<open>JSON.parse\<close> gives an array of objects, and the
  value of a member is a string, a number or \<open>null\<close>; a document of another shape is not one
  of jobs. \<open>fmlookup o k\<close> is \<open>None\<close> when the object read back has no property \<open>k\<close>.
\<close>

definition JSON_parse_value :: "json \<Rightarrow> js_value option" where
  "JSON_parse_value j =
     (case j of JNull \<Rightarrow> Some Null | JString x \<Rightarrow> Some (Str x) | JNumber n \<Rightarrow> Some (Num n)
      | _ \<Rightarrow> None)"

definition JSON_parse_object :: "json \<Rightarrow> (string, js_value) fmap option" where
  "JSON_parse_object j =
     (case j of
        JObject members \<Rightarrow>
          (if fmpred (\<lambda>k v. JSON_parse_value v \<noteq> None) members
           then Some (fmmap (\<lambda>v. case JSON_parse_value v of Some x \<Rightarrow> x | None \<Rightarrow> Undefined)
                        members)
           else None)
      | _ \<Rightarrow> None)"

definition JSON_parse_jobs :: "json \<Rightarrow> (string, js_value) fmap list option" where
  "JSON_parse_jobs d = (case d of JArray js \<Rightarrow> those (map JSON_parse_object js) | _ \<Rightarrow> None)"

text \<open>
  What a property of a job is read back as: not at all when it was \<open>undefined\<close>, as the
  string of \<open>toISOString\<close> when it was a \<open>Date\<close>, and as it was otherwise.
\<close>

definition read_back :: "js_value \<Rightarrow> js_value option" where
  "read_back v =
     (case v of Undefined \<Rightarrow> None | Null \<Rightarrow> Some Null | Str x \<Rightarrow> Some (Str x)
      | Num n \<Rightarrow> Some (Num n) | DateObject d \<Rightarrow> Some (Str (toISOString d)))"

subsection \<open>A run to try the properties on\<close>

text \<open>
  Three files; the first submission is refused, the other two get the ids q2 and q3. The
  first poll reports q2 as succeeded after 1200 ms with 2048 bytes scanned, and q3 as running.
\<close>

definition three_files :: "query_file list" where
  "three_files =
     [\<lparr>name = ''unit1.sql'', query = ''select 1''\<rparr>, \<lparr>name = ''unit2.sql'', query = ''select 2''\<rparr>,
      \<lparr>name = ''unit3.sql'', query = ''select 3''\<rparr>]"

definition first_refused :: "nat \<Rightarrow> string + string" where
  "first_refused i = (if i = 0 then Inl ''denied'' else if i = 1 then Inr ''q2'' else Inr ''q3'')"

definition all_refused :: "nat \<Rightarrow> string + string" where
  "all_refused i = Inl ''denied''"

definition first_poll :: results where
  "first_poll =
     \<lparr>QueryExecutions =
        [\<lparr>QueryExecutionId = ''q2'', State = SUCCEEDED, SubmissionDateTime = Some (Date 1551434400000),
          CompletionDateTime = Some (Date 1551434402000),
          EngineExecutionTimeInMillis = Some 1200, DataScannedInBytes = Some 2048\<rparr>,
         \<lparr>QueryExecutionId = ''q3'', State = RUNNING, SubmissionDateTime = Some (Date 1551434400000),
          CompletionDateTime = None, EngineExecutionTimeInMillis = None,
          DataScannedInBytes = None\<rparr>],
      UnprocessedQueryExecutionIds = []\<rparr>"

text \<open>The dictionary of that run after the first poll.\<close>

definition after_first_poll :: registry where
  "after_first_poll =
     [(''undefined'',
       \<lparr>name = ''unit1.sql'', query = ''select 1'', id_job = None, status = FAILED,
        error = Some ''denied'', starttime = None, endtime = None, runtime = None,
        scanned = None\<rparr>),
      (''q2'',
       \<lparr>name = ''unit2.sql'', query = ''select 2'', id_job = Some ''q2'', status = SUCCEEDED,
        error = None, starttime = Some (Date 1551434400000),
        endtime = Some (Date 1551434402000), runtime = Some 1200,
        scanned = Some 2048\<rparr>),
      (''q3'',
       \<lparr>name = ''unit3.sql'', query = ''select 3'', id_job = Some ''q3'', status = RUNNING,
        error = None, starttime = Some (Date 1551434400000), endtime = None,
        runtime = None, scanned = None\<rparr>)]"

text \<open>A second poll: the service could not process q3, with the message "internal error".\<close>

definition second_poll :: results where
  "second_poll =
     \<lparr>QueryExecutions = [],
      UnprocessedQueryExecutionIds =
        [\<lparr>UnprocessedId = ''q3'', ErrorMessage = Some ''internal error''\<rparr>]\<rparr>"

definition after_second_poll :: registry where
  "after_second_poll =
     [(''undefined'',
       \<lparr>name = ''unit1.sql'', query = ''select 1'', id_job = None, status = FAILED,
        error = Some ''denied'', starttime = None, endtime = None, runtime = None,
        scanned = None\<rparr>),
      (''q2'',
       \<lparr>name = ''unit2.sql'', query = ''select 2'', id_job = Some ''q2'', status = SUCCEEDED,
        error = None, starttime = Some (Date 1551434400000),
        endtime = Some (Date 1551434402000), runtime = Some 1200,
        scanned = Some 2048\<rparr>),
      (''q3'',
       \<lparr>name = ''unit3.sql'', query = ''select 3'', id_job = Some ''q3'', status = FAILED,
        error = Some ''internal error'', starttime = Some (Date 1551434400000),
        endtime = None, runtime = None, scanned = None\<rparr>)]"

text \<open>The state of that run after the first cycle.\<close>

definition after_first_cycle :: state where
  "after_first_cycle =
     \<lparr>jobIndex = after_first_poll, INDEX_assigned = True, process = Running,
      results_json = None, calls = [BatchGetQueryExecution [Some ''q2'', Some ''q3'']],
      polls = 0, cancels = []\<rparr>"

text \<open>
  Two answers to a status request about q3 alone: that it has succeeded, and that it has
  been cancelled.
\<close>

definition late_poll :: results where
  "late_poll =
     \<lparr>QueryExecutions =
        [\<lparr>QueryExecutionId = ''q3'', State = SUCCEEDED, SubmissionDateTime = Some (Date 1551434400000),
          CompletionDateTime = Some (Date 1551434405000),
          EngineExecutionTimeInMillis = Some 4100, DataScannedInBytes = Some 4096\<rparr>],
      UnprocessedQueryExecutionIds = []\<rparr>"

definition cancelled_poll :: results where
  "cancelled_poll =
     \<lparr>QueryExecutions =
        [\<lparr>QueryExecutionId = ''q3'', State = CANCELLED, SubmissionDateTime = Some (Date 1551434400000),
          CompletionDateTime = Some (Date 1551434404000),
          EngineExecutionTimeInMillis = Some 3000, DataScannedInBytes = Some 1024\<rparr>],
      UnprocessedQueryExecutionIds = []\<rparr>"

text \<open>
  Two answers to a status request about q2 and q3: one that the service had made up while
  both were still running, and one in which it could not process q2.
\<close>

definition stale_poll :: results where
  "stale_poll =
     \<lparr>QueryExecutions =
        [\<lparr>QueryExecutionId = ''q2'', State = RUNNING, SubmissionDateTime = Some (Date 1551434400000),
          CompletionDateTime = None, EngineExecutionTimeInMillis = None,
          DataScannedInBytes = None\<rparr>,
         \<lparr>QueryExecutionId = ''q3'', State = RUNNING, SubmissionDateTime = Some (Date 1551434400000),
          CompletionDateTime = None, EngineExecutionTimeInMillis = None,
          DataScannedInBytes = None\<rparr>],
      UnprocessedQueryExecutionIds = []\<rparr>"

definition q2_unprocessed_poll :: results where
  "q2_unprocessed_poll =
     \<lparr>QueryExecutions =
        [\<lparr>QueryExecutionId = ''q3'', State = RUNNING, SubmissionDateTime = Some (Date 1551434400000),
          CompletionDateTime = None, EngineExecutionTimeInMillis = None,
          DataScannedInBytes = None\<rparr>],
      UnprocessedQueryExecutionIds =
        [\<lparr>UnprocessedId = ''q2'', ErrorMessage = Some ''internal error''\<rparr>]\<rparr>"

section \<open>The run to try the properties on, evaluated\<close>

lemma jobIndex_all_refused:
  "jobIndex (run all_refused three_files) =
     [(''undefined'',
       \<lparr>name = ''unit3.sql'', query = ''select 3'', id_job = None, status = FAILED,
        error = Some ''denied'', starttime = None, endtime = None, runtime = None,
        scanned = None\<rparr>)]"
  by (simp add: run_def indexTasks_def executeQueries_def startQueryExecution_callback_def
      property_key_def all_refused_def three_files_def)

lemma jobIndex_first_refused:
  "jobIndex (run first_refused three_files) =
     [(''undefined'',
       \<lparr>name = ''unit1.sql'', query = ''select 1'', id_job = None, status = FAILED,
        error = Some ''denied'', starttime = None, endtime = None, runtime = None,
        scanned = None\<rparr>),
      (''q2'',
       \<lparr>name = ''unit2.sql'', query = ''select 2'', id_job = Some ''q2'', status = QUEUED,
        error = None, starttime = None, endtime = None, runtime = None, scanned = None\<rparr>),
      (''q3'',
       \<lparr>name = ''unit3.sql'', query = ''select 3'', id_job = Some ''q3'', status = QUEUED,
        error = None, starttime = None, endtime = None, runtime = None, scanned = None\<rparr>)]"
  by (simp add: run_def indexTasks_def executeQueries_def startQueryExecution_callback_def
      property_key_def first_refused_def three_files_def)

lemma run_fields:
  "INDEX_assigned (run athena files) = False" "process (run athena files) = Running"
  "results_json (run athena files) = None" "calls (run athena files) = []"
  "polls (run athena files) = 0" "cancels (run athena files) = []"
  by (simp_all add: run_def)

section \<open>Submission and the size of the dictionary\<close>

text \<open>
  C1. The dictionary built from N submitted files should have N entries however many
  submissions failed, a failed one under a key of its own. Here two files are submitted
  and both submissions fail: neither job has an id, both are stored under the key
  "undefined", and the dictionary has one entry, the second file's.
\<close>

theorem indexTasks_two_failed_submissions:
  "indexTasks (executeQueries all_refused
       [\<lparr>name = ''unit1.sql'', query = ''select 1''\<rparr>, \<lparr>name = ''unit2.sql'', query = ''select 2''\<rparr>])
   = [(''undefined'',
       \<lparr>name = ''unit2.sql'', query = ''select 2'', id_job = None, status = FAILED,
        error = Some ''denied'', starttime = None, endtime = None, runtime = None,
        scanned = None\<rparr>)]"
  by (simp add: indexTasks_def executeQueries_def startQueryExecution_callback_def
      property_key_def all_refused_def)

section \<open>The polling cycle\<close>

lemma getRunningJobs_empty:
  "getRunningJobs r = [] \<longleftrightarrow> list_all (\<lambda>t. terminal (status t)) (Object_values r)"
proof -
  have "\<And>st. (st \<noteq> QUEUED \<and> st \<noteq> RUNNING) = terminal st"
    by (case_tac st) (simp_all add: terminal_def)
  then show ?thesis
    by (simp add: getRunningJobs_def filter_empty_conv list_all_iff)
qed

lemma interval_settled_not_finished:
  "process s = Running \<Longrightarrow> m \<noteq> Resolved None \<Longrightarrow>
   process (interval_settled m s) \<noteq> Exited 0
   \<and> results_json (interval_settled m s) = results_json s
   \<and> calls (interval_settled m s) = calls s"
  by (auto simp: interval_settled_def Let_def split: settled.splits option.splits sum.splits)

lemma callback_not_undefined: "batchGetQueryExecution_callback r tasks \<noteq> Resolved None"
  by (simp add: batchGetQueryExecution_callback_def split: sum.splits)

text \<open>
  C2. In every state of the running program, a cycle ends the run through \<open>finishUp\<close>
  (the document written from the dictionary, exit code 0) exactly when every job's status
  is terminal. In that case no request is made to the service. When some job is queued or
  running, the cycle neither exits with 0 nor writes the document.
\<close>

theorem cycle_finishes_iff_all_terminal:
  assumes "process s = Running"
  shows "((process (cycle athena s) = Exited 0
            \<and> results_json (cycle athena s) = Some (JSON_stringify (Object_values (jobIndex s))))
          \<longleftrightarrow> list_all (\<lambda>t. terminal (status t)) (Object_values (jobIndex s)))
       \<and> (list_all (\<lambda>t. terminal (status t)) (Object_values (jobIndex s))
          \<longrightarrow> calls (cycle athena s) = calls s)
       \<and> (\<not> list_all (\<lambda>t. terminal (status t)) (Object_values (jobIndex s))
          \<longrightarrow> process (cycle athena s) \<noteq> Exited 0
              \<and> results_json (cycle athena s) = results_json s)"
proof (cases "getRunningJobs (jobIndex s) = []")
  case True
  then show ?thesis
    using assms getRunningJobs_empty[of "jobIndex s"]
    by (simp add: cycle_def step_def timer_fires_def interval_settled_def finishUp_def)
next
  case False
  then show ?thesis
    using assms getRunningJobs_empty[of "jobIndex s"]
      interval_settled_not_finished[OF _ callback_not_undefined]
    by (simp add: cycle_def step_def timer_fires_def poll_answered_def Let_def)
qed

theorem cycle_finishes_iff_all_terminal_witness:
  "process (cycle (\<lambda>ids. Inr first_poll) (run all_refused three_files)) = Exited 0
   \<and> calls (cycle (\<lambda>ids. Inr first_poll) (run all_refused three_files)) = []
   \<and> process (cycle (\<lambda>ids. Inr first_poll) (run first_refused three_files)) \<noteq> Exited 0
   \<and> results_json (cycle (\<lambda>ids. Inr first_poll) (run first_refused three_files)) = None"
proof -
  have a: "process (run all_refused three_files) = Running"
    and b: "process (run first_refused three_files) = Running"
    by (simp_all add: run_fields)
  have c: "list_all (\<lambda>t. terminal (status t))
             (Object_values (jobIndex (run all_refused three_files)))"
    by (simp add: jobIndex_all_refused Object_values_def terminal_def)
  have d: "\<not> list_all (\<lambda>t. terminal (status t))
             (Object_values (jobIndex (run first_refused three_files)))"
    by (simp add: jobIndex_first_refused Object_values_def terminal_def)
  show ?thesis
    using cycle_finishes_iff_all_terminal[OF a, of "\<lambda>ids. Inr first_poll"]
      cycle_finishes_iff_all_terminal[OF b, of "\<lambda>ids. Inr first_poll"] c d
    by (simp add: run_fields)
qed

lemma Tick_first_refused:
  "step Tick (run first_refused three_files) =
     (run first_refused three_files)
       \<lparr>calls := [BatchGetQueryExecution [Some ''q2'', Some ''q3'']], polls := 1\<rparr>"
  by (simp add: step_def timer_fires_def getRunningJobs_def Object_values_def
      jobIndex_first_refused run_fields)

text \<open>
  C7. When the batched status request itself fails, the run ends with exit code 1 and the
  dictionary is as it was before the cycle; nothing is written and \<open>INDEX\<close> is not
  assigned. The first part is the answer as an event (a request is pending), the second
  the whole cycle (some job is queued or running, so the request is made).
\<close>

theorem poll_error_exits_registry_untouched:
  assumes "process s = Running"
  shows "(0 < polls s \<longrightarrow>
            step (PollAnswer (Inl err)) s = s\<lparr>polls := polls s - 1, process := Exited 1\<rparr>)
       \<and> (getRunningJobs (jobIndex s) \<noteq> [] \<and> athena (getRunningJobs (jobIndex s)) = Inl err \<longrightarrow>
            process (cycle athena s) = Exited 1 \<and> jobIndex (cycle athena s) = jobIndex s
            \<and> INDEX_assigned (cycle athena s) = INDEX_assigned s
            \<and> results_json (cycle athena s) = results_json s)"
  using assms
  by (simp add: step_def poll_answered_def batchGetQueryExecution_callback_def
      interval_settled_def cycle_def timer_fires_def Let_def)

theorem poll_error_exits_registry_untouched_witness:
  "process (cycle (\<lambda>ids. Inl (ServiceError ''timeout'')) (run first_refused three_files)) = Exited 1
   \<and> jobIndex (cycle (\<lambda>ids. Inl (ServiceError ''timeout'')) (run first_refused three_files))
       = jobIndex (run first_refused three_files)
   \<and> results_json (cycle (\<lambda>ids. Inl (ServiceError ''timeout'')) (run first_refused three_files))
       = None
   \<and> process (step (PollAnswer (Inl (ServiceError ''timeout'')))
                (step Tick (run first_refused three_files)))
       = Exited 1"
proof -
  have a: "process (run first_refused three_files) = Running"
    by (simp add: run_fields)
  have b: "getRunningJobs (jobIndex (run first_refused three_files)) \<noteq> []"
    by (simp add: getRunningJobs_def Object_values_def jobIndex_first_refused)
  have c: "process (step Tick (run first_refused three_files)) = Running"
    "0 < polls (step Tick (run first_refused three_files))"
    by (simp_all add: Tick_first_refused run_fields)
  show ?thesis
    using poll_error_exits_registry_untouched
        [OF a, of "ServiceError ''timeout''" "\<lambda>ids. Inl (ServiceError ''timeout'')"]
      poll_error_exits_registry_untouched[OF c(1), of "ServiceError ''timeout''"] b c(2)
    by (simp add: run_fields)
qed

section \<open>Events\<close>

lemma step_not_running: "process s \<noteq> Running \<Longrightarrow> step e s = s"
  by (simp add: step_def)

lemma run_events_not_running: "process s \<noteq> Running \<Longrightarrow> run_events es s = s"
  unfolding run_events_def by (induction es) (simp_all add: step_not_running)

lemma run_events_Cons: "run_events (e # es) s = run_events es (step e s)"
  by (simp add: run_events_def)

lemma run_events_snoc: "run_events (es @ [e]) s = step e (run_events es s)"
  by (simp add: run_events_def)

lemma step_assigns_INDEX:
  assumes "\<not> INDEX_assigned s" "INDEX_assigned (step e s)"
  shows "\<exists>out jobs c. e = PollAnswer (Inr out)
           \<and> batchGetQueryExecution_callback (Inr out) (jobIndex s) = Resolved (Some jobs)
           \<and> consolidateJobs (runs jobs) jobs = Inr c"
proof (cases e)
  case Tick
  then show ?thesis using assms
    by (auto simp: step_def timer_fires_def interval_settled_def finishUp_def Let_def
        split: if_splits)
next
  case (PollAnswer r)
  then show ?thesis using assms
    by (cases r)
      (auto simp: step_def poll_answered_def interval_settled_def finishUp_def Let_def
        batchGetQueryExecution_callback_def
        split: if_splits settled.splits option.splits sum.splits)
next
  case Interrupt
  then show ?thesis using assms
    by (auto simp: step_def SIGINT_def split: if_splits)
next
  case (StopAnswer b err)
  then show ?thesis using assms
    by (auto simp: step_def stop_answered_def finishUp_def Let_def split: if_splits)
qed

lemma poll_results_snoc:
  "poll_results (es @ [e]) = [] \<longleftrightarrow> poll_results es = [] \<and> (\<forall>out. e \<noteq> PollAnswer (Inr out))"
  by (auto simp: poll_results_def List.map_filter_def split: event.splits sum.splits)

lemma written_then_ended:
  "process s = Running \<longrightarrow> results_json s = None \<Longrightarrow>
   process (step e s) = Running \<longrightarrow> results_json (step e s) = None"
  by (cases e)
    (auto simp: step_def timer_fires_def poll_answered_def interval_settled_def finishUp_def
      SIGINT_def stop_answered_def Let_def
      split: if_splits settled.splits option.splits sum.splits)

lemma before_first_result:
  "poll_results es = [] \<Longrightarrow>
   \<not> INDEX_assigned (run_events es (run athena files))
   \<and> (process (run_events es (run athena files)) = Running
        \<longrightarrow> results_json (run_events es (run athena files)) = None)"
proof (induction es rule: rev_induct)
  case Nil
  then show ?case by (simp add: run_events_def run_def)
next
  case (snoc e es)
  then have a: "poll_results es = []" and b: "\<forall>out. e \<noteq> PollAnswer (Inr out)"
    by (simp_all add: poll_results_snoc)
  from snoc.IH[OF a] b show ?case
    using step_assigns_INDEX[of "run_events es (run athena files)" e]
      written_then_ended[of "run_events es (run athena files)" e]
    by (auto simp: run_events_snoc)
qed

text \<open>
  C10. From the start of the interval on, as long as no batched status request has been
  answered successfully, \<open>INDEX\<close> is still \<open>undefined\<close>. An interrupt then ends the
  process by the uncaught exception of \<open>getRunningJobs(INDEX)\<close>: no cancellation request
  is made and no document is written. And \<open>INDEX\<close> is assigned only by the answer to a
  batched request that was successful and whose consolidation did not throw.
\<close>

theorem interrupt_before_first_consolidation:
  assumes "poll_results es = []" and "process (run_events es (run athena files)) = Running"
  shows "\<not> INDEX_assigned (run_events es (run athena files))
       \<and> process (run_events (es @ [Interrupt]) (run athena files)) = Crashed TypeError
       \<and> calls (run_events (es @ [Interrupt]) (run athena files))
           = calls (run_events es (run athena files))
       \<and> results_json (run_events (es @ [Interrupt]) (run athena files)) = None
       \<and> (\<forall>s e. \<not> INDEX_assigned s \<and> INDEX_assigned (step e s) \<longrightarrow>
             (\<exists>out jobs c. e = PollAnswer (Inr out)
                \<and> batchGetQueryExecution_callback (Inr out) (jobIndex s) = Resolved (Some jobs)
                \<and> consolidateJobs (runs jobs) jobs = Inr c))"
  using before_first_result[OF assms(1), of athena files] assms(2) step_assigns_INDEX
  by (simp add: run_events_snoc step_def SIGINT_def)

theorem interrupt_before_first_consolidation_witness:
  "\<not> INDEX_assigned (run_events [Tick] (run first_refused three_files))
   \<and> process (run_events [Tick, Interrupt] (run first_refused three_files)) = Crashed TypeError
   \<and> calls (run_events [Tick, Interrupt] (run first_refused three_files))
       = [BatchGetQueryExecution [Some ''q2'', Some ''q3'']]
   \<and> results_json (run_events [Tick, Interrupt] (run first_refused three_files)) = None"
proof -
  have a: "poll_results [Tick] = []"
    by (simp add: poll_results_def List.map_filter_def)
  have b: "run_events [Tick] (run first_refused three_files)
             = step Tick (run first_refused three_files)"
    by (simp add: run_events_def)
  have c: "process (run_events [Tick] (run first_refused three_files)) = Running"
    by (simp add: b Tick_first_refused run_fields)
  show ?thesis
    using interrupt_before_first_consolidation[OF a c] by (simp add: b Tick_first_refused)
qed

section \<open>The document read back\<close>

lemma toISOString_examples:
  "toISOString (Date 1551434400000) = ''2019-03-01T10:00:00.000Z''"
  "toISOString (Date 1551434402000) = ''2019-03-01T10:00:02.000Z''"
  "toISOString (Date 1551434404000) = ''2019-03-01T10:00:04.000Z''"
  "toISOString (Date 1551434405000) = ''2019-03-01T10:00:05.000Z''"
  by code_simp+

lemma map_of_named:
  "map_of (List.map_filter (\<lambda>k. map_option (Pair k) (g k)) ks) k
     = (if k \<in> set ks then g k else None)"
  by (induction ks) (auto simp: map_option_case split: option.splits)

lemma own_properties_unnamed: "k \<notin> set property_names \<Longrightarrow> own_properties t k = Undefined"
  by (simp add: property_names_def own_properties_def)

lemma stringify_job_members:
  "\<exists>members. stringify_job t = JObject members
     \<and> (\<forall>k. fmlookup members k = stringify_value (own_properties t k))"
proof -
  let ?members = "fmap_of_list
       (List.map_filter (\<lambda>k. map_option (Pair k) (stringify_value (own_properties t k)))
          property_names)"
  have "fmlookup ?members k = stringify_value (own_properties t k)" for k
  proof (cases "k \<in> set property_names")
    case True
    then show ?thesis by (simp add: fmlookup_of_list map_of_named)
  next
    case False
    then show ?thesis
      by (simp add: fmlookup_of_list map_of_named own_properties_unnamed stringify_value_def)
  qed
  then show ?thesis by (auto simp: stringify_job_def)
qed

lemma parse_stringified_value:
  "(case stringify_value v of None \<Rightarrow> None | Some j \<Rightarrow> JSON_parse_value j) = read_back v"
  by (cases v) (simp_all add: stringify_value_def JSON_parse_value_def read_back_def)

lemma stringified_value_parses:
  "stringify_value v = Some j \<Longrightarrow> JSON_parse_value j \<noteq> None"
  by (cases v) (auto simp: stringify_value_def JSON_parse_value_def)

lemma JSON_parse_stringified_job:
  "\<exists>obj. JSON_parse_object (stringify_job t) = Some obj
      \<and> (\<forall>k. fmlookup obj k = read_back (own_properties t k))"
proof -
  from stringify_job_members[of t] obtain members where m: "stringify_job t = JObject members"
    and l: "\<And>k. fmlookup members k = stringify_value (own_properties t k)" by blast
  have p: "fmpred (\<lambda>k v. JSON_parse_value v \<noteq> None) members"
    by (rule fmpredI) (simp add: l stringified_value_parses)
  let ?obj = "fmmap (\<lambda>v. case JSON_parse_value v of Some x \<Rightarrow> x | None \<Rightarrow> Undefined) members"
  have "fmlookup ?obj k = read_back (own_properties t k)" for k
    using parse_stringified_value[of "own_properties t k"] stringified_value_parses[of "own_properties t k"]
    by (cases "stringify_value (own_properties t k)") (auto simp: l)
  with m p show ?thesis by (simp add: JSON_parse_object_def)
qed

lemma JSON_parse_stringified_jobs:
  "\<exists>objs. those (map JSON_parse_object (map stringify_job ts)) = Some objs
      \<and> list_all2 (\<lambda>t obj. \<forall>k. fmlookup obj k = read_back (own_properties t k)) ts objs"
proof (induction ts)
  case Nil
  then show ?case by simp
next
  case (Cons t ts)
  from JSON_parse_stringified_job[of t] Cons show ?case by auto
qed

lemma fmpred_of_list: "list_all (\<lambda>(k, v). P k v) xs \<Longrightarrow> fmpred P (fmap_of_list xs)"
  by (rule fmpredI) (auto dest!: fmap_of_list_SomeD simp: list_all_iff)

lemma JSON_parse_object_of_list:
  "list_all (\<lambda>(k, v). JSON_parse_value v \<noteq> None) xs \<Longrightarrow>
   JSON_parse_object (JObject (fmap_of_list xs)) =
     Some (fmap_of_list
       (map (apsnd (\<lambda>v. case JSON_parse_value v of Some x \<Rightarrow> x | None \<Rightarrow> Undefined)) xs))"
  by (simp add: JSON_parse_object_def fmpred_of_list fmmap_of_list)

lemmas document = stringify_job_def property_names_def own_properties_def stringify_value_def
  optional_def status_name_def toISOString_examples

text \<open>
  C9, as the claim states it, fails. The job of the second file has succeeded; its start
  time in the dictionary is a \<open>Date\<close>. In the document read back the property
  \<open>starttime\<close> is a string, the text that \<open>toISOString\<close> gives for that \<open>Date\<close>, and so
  is \<open>endtime\<close>.
\<close>

theorem date_read_back_as_string:
  "own_properties
     \<lparr>name = ''unit2.sql'', query = ''select 2'', id_job = Some ''q2'', status = SUCCEEDED,
      error = None, starttime = Some (Date 1551434400000),
      endtime = Some (Date 1551434402000), runtime = Some 1200, scanned = Some 2048\<rparr>
     ''starttime'' = DateObject (Date 1551434400000)
   \<and> JSON_parse_jobs (JSON_stringify
       [\<lparr>name = ''unit2.sql'', query = ''select 2'', id_job = Some ''q2'', status = SUCCEEDED,
         error = None, starttime = Some (Date 1551434400000),
         endtime = Some (Date 1551434402000), runtime = Some 1200, scanned = Some 2048\<rparr>])
     = Some [fmap_of_list
         [(''name'', Str ''unit2.sql''), (''query'', Str ''select 2''), (''id'', Str ''q2''),
          (''status'', Str ''SUCCEEDED''), (''starttime'', Str ''2019-03-01T10:00:00.000Z''),
          (''endtime'', Str ''2019-03-01T10:00:02.000Z''), (''runtime'', Num 1200),
          (''scanned'', Num 2048)]]"
  by (simp add: JSON_parse_jobs_def JSON_stringify_def document JSON_parse_object_of_list
      JSON_parse_value_def del: fmap_of_list_simps)

text \<open>
  C9, amended. \<open>finishUp\<close> writes the document of the dictionary's values, and reading
  that document back gives one object for each job, in the same order. A property that is
  \<open>undefined\<close> in the job is absent from the object (it is not \<open>null\<close>); a property that
  holds a string or a number holds the same string or number in the object; and a property
  that holds a \<open>Date\<close> (the start time, the end time) holds in the object the string that
  \<open>toISOString\<close> gives for it. The object has no other property.
\<close>

theorem document_round_trip:
  "results_json (finishUp r s) = Some (JSON_stringify (Object_values r))
   \<and> (\<exists>objs. JSON_parse_jobs (JSON_stringify (Object_values r)) = Some objs
        \<and> list_all2
             (\<lambda>t obj. \<forall>k. fmlookup obj k =
                (case own_properties t k of Undefined \<Rightarrow> None | Null \<Rightarrow> Some Null
                 | Str x \<Rightarrow> Some (Str x) | Num n \<Rightarrow> Some (Num n)
                 | DateObject d \<Rightarrow> Some (Str (toISOString d))))
             (Object_values r) objs)"
  using JSON_parse_stringified_jobs[of "Object_values r"]
  by (simp add: finishUp_def JSON_parse_jobs_def JSON_stringify_def read_back_def)

theorem document_round_trip_witness:
  "results_json (finishUp after_first_poll after_first_cycle)
     = Some (JSON_stringify (Object_values after_first_poll))
   \<and> (\<exists>objs. JSON_parse_jobs (JSON_stringify (Object_values after_first_poll)) = Some objs
        \<and> length objs = 3
        \<and> map (\<lambda>obj. fmlookup obj ''starttime'') objs
            = [None, Some (Str ''2019-03-01T10:00:00.000Z''), Some (Str ''2019-03-01T10:00:00.000Z'')]
        \<and> map (\<lambda>obj. fmlookup obj ''endtime'') objs
            = [None, Some (Str ''2019-03-01T10:00:02.000Z''), None]
        \<and> map (\<lambda>obj. fmlookup obj ''runtime'') objs = [None, Some (Num 1200), None])"
proof -
  from document_round_trip[of after_first_poll after_first_cycle]
  obtain objs where w: "results_json (finishUp after_first_poll after_first_cycle)
     = Some (JSON_stringify (Object_values after_first_poll))"
    and p: "JSON_parse_jobs (JSON_stringify (Object_values after_first_poll)) = Some objs"
    and l: "list_all2
             (\<lambda>t obj. \<forall>k. fmlookup obj k =
                (case own_properties t k of Undefined \<Rightarrow> None | Null \<Rightarrow> Some Null
                 | Str x \<Rightarrow> Some (Str x) | Num n \<Rightarrow> Some (Num n)
                 | DateObject d \<Rightarrow> Some (Str (toISOString d))))
             (Object_values after_first_poll) objs"
    by blast
  from l obtain o1 o2 o3 where objs: "objs = [o1, o2, o3]"
    by (auto simp: Object_values_def after_first_poll_def list_all2_Cons1)
  from l objs have "fmlookup o1 ''starttime'' = None"
    "fmlookup o2 ''starttime'' = Some (Str ''2019-03-01T10:00:00.000Z'')"
    "fmlookup o3 ''starttime'' = Some (Str ''2019-03-01T10:00:00.000Z'')"
    "fmlookup o1 ''endtime'' = None"
    "fmlookup o2 ''endtime'' = Some (Str ''2019-03-01T10:00:02.000Z'')"
    "fmlookup o3 ''endtime'' = None"
    "fmlookup o1 ''runtime'' = None" "fmlookup o2 ''runtime'' = Some (Num 1200)"
    "fmlookup o3 ''runtime'' = None"
    by (simp_all add: Object_values_def after_first_poll_def own_properties_def optional_def
        toISOString_examples)
  with w p objs show ?thesis by simp
qed

section \<open>Applying a poll result\<close>

lemma monitor_item_write: "monitor_item = (\<lambda>item. write_job (Reported item))"
  by (rule ext, rule ext) (simp add: monitor_item_def write_job_def Let_def split: option.splits)

lemma forEach_append:
  "forEach body (xs @ ys) s =
     (case forEach body xs s of Inl e \<Rightarrow> Inl e | Inr s' \<Rightarrow> forEach body ys s')"
  by (induction xs arbitrary: s) (simp_all split: sum.splits)

lemma forEach_map: "forEach body (map f xs) s = forEach (\<lambda>x. body (f x)) xs s"
  by (induction xs arbitrary: s) (simp_all split: sum.splits)

lemma update_defined: "AList.update k (Some v) (defined r) = defined (AList.update k v r)"
  by (induction r) (auto simp: defined_def)

lemma map_of_defined: "map_of (defined r) k = map_option Some (map_of r k)"
  by (induction r) (auto simp: defined_def)

lemma consolidate_failed_write:
  "consolidate_failed i (defined r) = map_sum id defined (write_job (Refused i) r)"
  by (simp add: consolidate_failed_def write_job_def map_of_defined update_defined
      split: option.splits)

lemma forEach_consolidate_failed:
  "forEach consolidate_failed U (defined r) = map_sum id defined (forEach (\<lambda>i. write_job (Refused i)) U r)"
proof (induction U arbitrary: r)
  case Nil
  then show ?case by simp
next
  case (Cons i U)
  then show ?case
    by (cases "write_job (Refused i) r") (simp_all add: consolidate_failed_write)
qed

lemma draw_defined: "draw (defined r) = Inr r"
proof -
  have "list_all (\<lambda>(k, item). item \<noteq> None) (defined r)"
    by (induction r) (auto simp: defined_def)
  moreover have "List.map_filter (\<lambda>(k, item). map_option (Pair k) item) (defined r) = r"
    by (induction r) (auto simp: defined_def)
  ultimately show ?thesis by (simp add: draw_def)
qed

lemma first_loop_defined:
  assumes "distinct (map fst r)"
  shows "map (\<lambda>k. (k, map_of r k)) (Object_keys r) = defined r"
proof -
  have "\<And>k t. (k, t) \<in> set r \<Longrightarrow> map_of r k = Some t"
    using assms by simp
  then show ?thesis
    by (auto simp: Object_keys_def defined_def)
qed

lemma write_job_keys:
  assumes "write_job w r = Inr r'"
  shows "map fst r' = map fst r"
proof -
  from assms obtain t where t: "map_of r (target w) = Some t"
    and r': "r' = AList.update (target w) (overwrite w t) r"
    by (auto simp: write_job_def split: option.splits)
  from t have "target w \<in> fst ` set r"
    using map_of_eq_None_iff[of r "target w"] by simp
  with r' show ?thesis by (simp add: update_keys)
qed

lemma forEach_write_job_keys: "forEach write_job ws r = Inr r' \<Longrightarrow> map fst r' = map fst r"
proof (induction ws arbitrary: r)
  case Nil
  then show ?case by simp
next
  case (Cons w ws)
  then show ?case
    by (cases "write_job w r") (auto dest: write_job_keys)
qed

lemma apply_results_writes:
  assumes "distinct (map fst r)"
  shows "apply_results out r = forEach write_job (writes out) r"
proof (cases "forEach write_job (map Reported (QueryExecutions out)) r")
  case (Inl e)
  then show ?thesis
    by (simp add: apply_results_def batchGetQueryExecution_callback_def writes_def forEach_append
        monitor_item_write forEach_map)
next
  case (Inr r1)
  then have "distinct (map fst r1)"
    using assms forEach_write_job_keys by metis
  with Inr show ?thesis
    using forEach_consolidate_failed[of "UnprocessedQueryExecutionIds out" r1]
    by (cases "forEach (\<lambda>i. write_job (Refused i)) (UnprocessedQueryExecutionIds out) r1")
       (simp_all add: apply_results_def batchGetQueryExecution_callback_def writes_def
        forEach_append monitor_item_write forEach_map consolidateJobs_def first_loop_defined
        draw_defined)
qed


lemma write_job_map_of:
  assumes "write_job w r = Inr r'"
  shows "\<exists>t. map_of r (target w) = Some t \<and> map_of r' = (map_of r)(target w \<mapsto> overwrite w t)"
  using assms by (auto simp: write_job_def update_conv' split: option.splits)

lemma forEach_write_job_map_of:
  "forEach write_job ws r = Inr r' \<Longrightarrow>
   map_of r' k = map_option (fold overwrite (filter (\<lambda>w. target w = k) ws)) (map_of r k)"
proof (induction ws arbitrary: r)
  case Nil
  then show ?case by (simp add: option.map_ident)
next
  case (Cons w ws)
  from Cons.prems obtain r1 where r1: "write_job w r = Inr r1" and rest: "forEach write_job ws r1 = Inr r'"
    by (cases "write_job w r") auto
  from write_job_map_of[OF r1] obtain t where t: "map_of r (target w) = Some t"
    and m: "map_of r1 = (map_of r)(target w \<mapsto> overwrite w t)" by blast
  show ?case
    using Cons.IH[OF rest] t m by simp
qed

lemma forEach_write_job_succeeds:
  "(\<exists>r'. forEach write_job ws r = Inr r') \<longleftrightarrow> target ` set ws \<subseteq> fst ` set r"
proof (induction ws arbitrary: r)
  case Nil
  then show ?case by simp
next
  case (Cons w ws)
  show ?case
  proof (cases "write_job w r")
    case (Inl e)
    then have "map_of r (target w) = None"
      by (simp add: write_job_def split: option.splits)
    then have "target w \<notin> fst ` set r" by (simp add: map_of_eq_None_iff)
    with Inl show ?thesis by simp
  next
    case (Inr r1)
    from write_job_keys[OF Inr] have keys: "fst ` set r1 = fst ` set r"
      by (metis set_map)
    from write_job_map_of[OF Inr] have "target w \<in> fst ` set r"
      using map_of_eq_None_iff[of r "target w"] by auto
    with Inr keys Cons.IH[of r1] show ?thesis by simp
  qed
qed

lemma overwrite_idem: "overwrite w (overwrite w x) = overwrite w x"
  by (cases w) auto

lemma overwrite_absorbs:
  assumes "overwrite w x = overwrite w y"
  shows "overwrite w (overwrite v x) = overwrite w (overwrite v y)"
proof -
  have f: "name (overwrite w x) = name (overwrite w y)"
    "query (overwrite w x) = query (overwrite w y)"
    "id_job (overwrite w x) = id_job (overwrite w y)"
    "error (overwrite w x) = error (overwrite w y)"
    "starttime (overwrite w x) = starttime (overwrite w y)"
    "endtime (overwrite w x) = endtime (overwrite w y)"
    "runtime (overwrite w x) = runtime (overwrite w y)"
    "scanned (overwrite w x) = scanned (overwrite w y)"
    using assms by simp_all
  show ?thesis
  proof (cases w)
    case (Reported item)
    with f show ?thesis
      by (cases v) (auto split: if_splits intro: job.equality)
  next
    case (Refused i)
    with f show ?thesis
      by (cases v) (auto split: if_splits intro: job.equality)
  qed
qed

lemma overwrite_fold_absorbs:
  "overwrite w x = overwrite w y \<Longrightarrow>
   overwrite w (fold overwrite vs x) = overwrite w (fold overwrite vs y)"
proof (induction vs arbitrary: x y)
  case Nil
  then show ?case by simp
next
  case (Cons v vs)
  have "overwrite w (overwrite v x) = overwrite w (overwrite v y)"
    by (rule overwrite_absorbs[OF Cons.prems])
  then have "overwrite w (fold overwrite vs (overwrite v x))
               = overwrite w (fold overwrite vs (overwrite v y))"
    by (rule Cons.IH)
  then show ?case by simp
qed

lemma fold_overwrite_idem:
  "fold overwrite ws (fold overwrite ws x) = fold overwrite ws x"
proof (induction ws arbitrary: x rule: rev_induct)
  case Nil
  then show ?case by simp
next
  case (snoc w ws)
  have "fold overwrite (ws @ [w]) (fold overwrite (ws @ [w]) x)
          = overwrite w (fold overwrite ws (overwrite w (fold overwrite ws x)))"
    by simp
  also have "\<dots> = overwrite w (fold overwrite ws (fold overwrite ws x))"
    by (rule overwrite_fold_absorbs) (rule overwrite_idem)
  also have "\<dots> = overwrite w (fold overwrite ws x)"
    by (simp only: snoc.IH)
  also have "\<dots> = fold overwrite (ws @ [w]) x"
    by simp
  finally show ?case .
qed

lemma alist_eqI:
  "distinct (map fst xs) \<Longrightarrow> map fst xs = map fst ys \<Longrightarrow> map_of xs = map_of ys \<Longrightarrow> xs = ys"
proof (induction xs arbitrary: ys)
  case Nil
  then show ?case by simp
next
  case (Cons p xs)
  from Cons.prems(2) obtain q ys' where ys: "ys = q # ys'" by (cases ys) auto
  obtain k v where p: "p = (k, v)" by (cases p)
  obtain k' v' where q: "q = (k', v')" by (cases q)
  from Cons.prems(2) ys p q have k: "k' = k" and keys: "map fst xs = map fst ys'"
    by simp_all
  from Cons.prems(1) p have notin: "k \<notin> fst ` set xs" by simp
  then have notin': "k \<notin> fst ` set ys'"
    using keys by (metis set_map)
  have "map_of (p # xs) k = map_of ys k" by (rule fun_cong[OF Cons.prems(3)])
  then have v: "v' = v" using ys p q k by simp
  have "map_of xs x = map_of ys' x" for x
  proof (cases "x = k")
    case True
    have "map_of xs k = None" "map_of ys' k = None"
      using notin notin' by (simp_all add: map_of_eq_None_iff)
    with True show ?thesis by simp
  next
    case False
    have "map_of (p # xs) x = map_of ys x" by (rule fun_cong[OF Cons.prems(3)])
    with False ys p q k show ?thesis by simp
  qed
  then have "map_of xs = map_of ys'" by (rule ext)
  with Cons.IH[of ys'] Cons.prems(1) keys have "xs = ys'" by simp
  with ys p q k v show ?case by simp
qed


lemma apply_first_poll:
  "apply_results first_poll (jobIndex (run first_refused three_files)) = Inr after_first_poll"
  by (simp add: apply_results_def batchGetQueryExecution_callback_def first_poll_def
      monitor_item_def jobIndex_first_refused consolidateJobs_def Object_keys_def draw_def
      after_first_poll_def)

text \<open>
  C4. Applying a poll result (the reported executions and the unprocessed ids) to the
  dictionary that came out of applying the same poll result gives that dictionary again.
  The dictionary is a JavaScript object, so it has each key once; "applying" is the loop of
  \<open>monitor\<close>'s callback followed by \<open>consolidateJobs\<close>, and it comes to an end without
  an exception when every id of the poll result is a key.
\<close>

theorem consolidation_idempotent:
  assumes "distinct (Object_keys r)" and "apply_results out r = Inr r'"
  shows "apply_results out r' = Inr r'"
proof -
  have d: "distinct (map fst r)" using assms(1) by (simp add: Object_keys_def)
  from assms(2) have w: "forEach write_job (writes out) r = Inr r'"
    by (simp add: apply_results_writes[OF d])
  have keys: "map fst r' = map fst r" by (rule forEach_write_job_keys[OF w])
  then have d': "distinct (map fst r')" using d by simp
  have "target ` set (writes out) \<subseteq> fst ` set r"
    using forEach_write_job_succeeds[of "writes out" r] w by blast
  moreover have "fst ` set r' = fst ` set r"
    using keys by (metis set_map)
  ultimately have "target ` set (writes out) \<subseteq> fst ` set r'"
    by simp
  then obtain r'' where w': "forEach write_job (writes out) r' = Inr r''"
    using forEach_write_job_succeeds[of "writes out" r'] by blast
  have keys': "map fst r'' = map fst r'" by (rule forEach_write_job_keys[OF w'])
  have "map_of r'' k = map_of r' k" for k
    using forEach_write_job_map_of[OF w, of k] forEach_write_job_map_of[OF w', of k]
    by (cases "map_of r k") (simp_all add: fold_overwrite_idem)
  then have "map_of r'' = map_of r'" by (rule ext)
  with keys' d' have "r'' = r'"
    using alist_eqI[of r'' r'] by simp
  with w' show ?thesis by (simp add: apply_results_writes[OF d'])
qed

theorem consolidation_idempotent_witness:
  "distinct (Object_keys (jobIndex (run first_refused three_files)))
   \<and> apply_results first_poll (jobIndex (run first_refused three_files)) = Inr after_first_poll
   \<and> apply_results first_poll after_first_poll = Inr after_first_poll"
proof -
  have d: "distinct (Object_keys (jobIndex (run first_refused three_files)))"
    by (simp add: jobIndex_first_refused Object_keys_def)
  show ?thesis
    using consolidation_idempotent[OF d apply_first_poll] d apply_first_poll by simp
qed

lemma targets_writes: "map target (writes out) = mentioned out"
  by (simp add: writes_def mentioned_def comp_def)

lemma filter_not_target:
  "k \<notin> target ` set ws \<Longrightarrow> filter (\<lambda>v. target v = k) ws = []"
  by (induction ws) auto

lemma filter_distinct_target:
  "distinct (map target ws) \<Longrightarrow> w \<in> set ws \<Longrightarrow> filter (\<lambda>v. target v = target w) ws = [w]"
proof (induction ws)
  case Nil
  then show ?case by simp
next
  case (Cons v ws)
  show ?case
  proof (cases "v = w")
    case True
    from Cons.prems(1) have "target v \<notin> target ` set ws" by simp
    then have "filter (\<lambda>u. target u = target v) ws = []"
      by (rule filter_not_target)
    with True show ?thesis by simp
  next
    case False
    with Cons.prems have in_ws: "w \<in> set ws" by simp
    with Cons.prems(1) have "target v \<noteq> target w" by auto
    with Cons.IH in_ws Cons.prems(1) show ?thesis by simp
  qed
qed

lemma written_once:
  assumes "forEach write_job ws r = Inr r'" "distinct (map target ws)" "w \<in> set ws"
  shows "\<exists>t. map_of r (target w) = Some t \<and> map_of r' (target w) = Some (overwrite w t)"
proof -
  have "target w \<in> fst ` set r"
    using forEach_write_job_succeeds[of ws r] assms(1,3) by blast
  then obtain t where t: "map_of r (target w) = Some t"
    using map_of_eq_None_iff[of r "target w"] by auto
  with forEach_write_job_map_of[OF assms(1), of "target w"] filter_distinct_target[OF assms(2,3)]
  show ?thesis by simp
qed

lemma not_written:
  assumes "forEach write_job ws r = Inr r'" "k \<notin> target ` set ws"
  shows "map_of r' k = map_of r k"
  using forEach_write_job_map_of[OF assms(1), of k] filter_not_target[OF assms(2)]
  by (simp add: option.map_ident option.map_id)

lemma apply_second_poll:
  "apply_results second_poll after_first_poll = Inr after_second_poll"
  by (simp add: apply_results_def batchGetQueryExecution_callback_def second_poll_def
      consolidate_failed_def after_first_poll_def consolidateJobs_def Object_keys_def draw_def
      after_second_poll_def)

text \<open>
  C6. A successful poll result is applied to the dictionary, which has each key once, and
  names each id at most once; the application comes to an end without an exception. Then
  the dictionary has the keys it had, and
  \<^item> the job under an id of a reported execution has the reported state as its status,
    and its start time, end time, run time and bytes scanned are the reported ones when
    that state is RUNNING or SUCCEEDED and are as before otherwise; its other properties
    are as before;
  \<^item> the job under an unprocessed id has the status FAILED and the error message that
    came with the id; its other properties are as before;
  \<^item> the job under any key that the poll result does not name is as before.
\<close>

theorem consolidation_contract:
  assumes "distinct (Object_keys r)" and "distinct (mentioned out)"
    and "apply_results out r = Inr r'"
  shows "Object_keys r' = Object_keys r
    \<and> (\<forall>item \<in> set (QueryExecutions out). \<exists>t.
          map_of r (QueryExecutionId item) = Some t
          \<and> map_of r' (QueryExecutionId item) =
              Some (if State item = RUNNING \<or> State item = SUCCEEDED
                    then t\<lparr>status := State item, starttime := SubmissionDateTime item,
                           endtime := CompletionDateTime item,
                           runtime := EngineExecutionTimeInMillis item,
                           scanned := DataScannedInBytes item\<rparr>
                    else t\<lparr>status := State item\<rparr>))
    \<and> (\<forall>i \<in> set (UnprocessedQueryExecutionIds out). \<exists>t.
          map_of r (UnprocessedId i) = Some t
          \<and> map_of r' (UnprocessedId i) = Some (t\<lparr>status := FAILED, error := ErrorMessage i\<rparr>))
    \<and> (\<forall>k. k \<notin> set (mentioned out) \<longrightarrow> map_of r' k = map_of r k)"
proof -
  have d: "distinct (map fst r)" using assms(1) by (simp add: Object_keys_def)
  from assms(3) have w: "forEach write_job (writes out) r = Inr r'"
    by (simp add: apply_results_writes[OF d])
  have dt: "distinct (map target (writes out))"
    using assms(2) by (simp add: targets_writes)
  have keys: "Object_keys r' = Object_keys r"
    using forEach_write_job_keys[OF w] by (simp add: Object_keys_def)
  have reported: "\<exists>t. map_of r (QueryExecutionId item) = Some t
          \<and> map_of r' (QueryExecutionId item) =
              Some (if State item = RUNNING \<or> State item = SUCCEEDED
                    then t\<lparr>status := State item, starttime := SubmissionDateTime item,
                           endtime := CompletionDateTime item,
                           runtime := EngineExecutionTimeInMillis item,
                           scanned := DataScannedInBytes item\<rparr>
                    else t\<lparr>status := State item\<rparr>)"
    if "item \<in> set (QueryExecutions out)" for item
  proof -
    from that have "Reported item \<in> set (writes out)" by (simp add: writes_def)
    from written_once[OF w dt this] show ?thesis by auto
  qed
  have refused: "\<exists>t. map_of r (UnprocessedId i) = Some t
          \<and> map_of r' (UnprocessedId i) = Some (t\<lparr>status := FAILED, error := ErrorMessage i\<rparr>)"
    if "i \<in> set (UnprocessedQueryExecutionIds out)" for i
  proof -
    from that have "Refused i \<in> set (writes out)" by (simp add: writes_def)
    from written_once[OF w dt this] show ?thesis by simp
  qed
  have others: "map_of r' k = map_of r k" if "k \<notin> set (mentioned out)" for k
  proof -
    from that have "k \<notin> target ` set (writes out)"
      using targets_writes[of out] by (metis set_map)
    then show ?thesis by (rule not_written[OF w])
  qed
  from keys reported refused others show ?thesis by blast
qed

theorem consolidation_contract_witness:
  "distinct (Object_keys (jobIndex (run first_refused three_files)))
   \<and> distinct (mentioned first_poll)
   \<and> apply_results first_poll (jobIndex (run first_refused three_files)) = Inr after_first_poll
   \<and> map_of after_first_poll ''undefined''
     = map_of (jobIndex (run first_refused three_files)) ''undefined''
   \<and> (\<exists>t. map_of (jobIndex (run first_refused three_files)) ''q2'' = Some t
        \<and> map_of after_first_poll ''q2''
          = Some (t\<lparr>status := SUCCEEDED, starttime := Some (Date 1551434400000),
                    endtime := Some (Date 1551434402000), runtime := Some 1200,
                    scanned := Some 2048\<rparr>))
   \<and> apply_results second_poll after_first_poll = Inr after_second_poll
   \<and> (\<exists>t. map_of after_first_poll ''q3'' = Some t
        \<and> map_of after_second_poll ''q3''
          = Some (t\<lparr>status := FAILED, error := Some ''internal error''\<rparr>))
   \<and> map_of after_second_poll ''q2'' = map_of after_first_poll ''q2''"
proof -
  have d1: "distinct (Object_keys (jobIndex (run first_refused three_files)))"
    and d2: "distinct (Object_keys after_first_poll)"
    by (simp_all add: jobIndex_first_refused after_first_poll_def Object_keys_def)
  have m1: "distinct (mentioned first_poll)" and m2: "distinct (mentioned second_poll)"
    by (simp_all add: mentioned_def first_poll_def second_poll_def)
  have q2: "''q2'' \<notin> set (mentioned second_poll)"
    and u: "''undefined'' \<notin> set (mentioned first_poll)"
    by (simp_all add: mentioned_def first_poll_def second_poll_def)
  let ?item = "\<lparr>QueryExecutionId = ''q2'', State = SUCCEEDED,
             SubmissionDateTime = Some (Date 1551434400000),
             CompletionDateTime = Some (Date 1551434402000),
             EngineExecutionTimeInMillis = Some 1200, DataScannedInBytes = Some 2048\<rparr>"
  let ?i = "\<lparr>UnprocessedId = ''q3'', ErrorMessage = Some ''internal error''\<rparr>"
  have a: "?item \<in> set (QueryExecutions first_poll)"
    and b: "?i \<in> set (UnprocessedQueryExecutionIds second_poll)"
    by (simp_all add: first_poll_def second_poll_def)
  note c1 = consolidation_contract[OF d1 m1 apply_first_poll]
  note c2 = consolidation_contract[OF d2 m2 apply_second_poll]
  from c1 u have e1: "map_of after_first_poll ''undefined''
     = map_of (jobIndex (run first_refused three_files)) ''undefined''"
    by blast
  from c2 q2 have e2: "map_of after_second_poll ''q2'' = map_of after_first_poll ''q2''"
    by blast
  from c1 have "\<forall>item \<in> set (QueryExecutions first_poll). \<exists>t.
          map_of (jobIndex (run first_refused three_files)) (QueryExecutionId item) = Some t
          \<and> map_of after_first_poll (QueryExecutionId item) =
              Some (if State item = RUNNING \<or> State item = SUCCEEDED
                    then t\<lparr>status := State item, starttime := SubmissionDateTime item,
                           endtime := CompletionDateTime item,
                           runtime := EngineExecutionTimeInMillis item,
                           scanned := DataScannedInBytes item\<rparr>
                    else t\<lparr>status := State item\<rparr>)"
    by blast
  from bspec[OF this a] have e3: "\<exists>t. map_of (jobIndex (run first_refused three_files)) ''q2'' = Some t
        \<and> map_of after_first_poll ''q2''
          = Some (t\<lparr>status := SUCCEEDED, starttime := Some (Date 1551434400000),
                    endtime := Some (Date 1551434402000), runtime := Some 1200,
                    scanned := Some 2048\<rparr>)"
    by simp
  from c2 have "\<forall>i \<in> set (UnprocessedQueryExecutionIds second_poll). \<exists>t.
          map_of after_first_poll (UnprocessedId i) = Some t
          \<and> map_of after_second_poll (UnprocessedId i)
              = Some (t\<lparr>status := FAILED, error := ErrorMessage i\<rparr>)"
    by blast
  from bspec[OF this b] have e4: "\<exists>t. map_of after_first_poll ''q3'' = Some t
        \<and> map_of after_second_poll ''q3''
          = Some (t\<lparr>status := FAILED, error := Some ''internal error''\<rparr>)"
    by simp
  from d1 m1 apply_first_poll apply_second_poll e1 e2 e3 e4 show ?thesis by blast
qed

section \<open>Terminal jobs\<close>

lemma id_job_overwrite: "id_job (overwrite w t) = id_job t"
  by (cases w) simp_all

lemma id_job_fold_overwrite: "id_job (fold overwrite ws t) = id_job t"
  by (induction ws arbitrary: t) (simp_all add: id_job_overwrite)

lemma indexed_key: "indexed r \<Longrightarrow> (k, t) \<in> set r \<Longrightarrow> k = property_key (id_job t)"
  by (auto simp: indexed_def list_all_iff)

lemma indexed_lookup: "indexed r \<Longrightarrow> (k, t) \<in> set r \<Longrightarrow> map_of r k = Some t"
  by (simp add: indexed_def Object_keys_def)

lemma indexed_preserved:
  assumes "indexed r" "forEach write_job ws r = Inr r'"
  shows "indexed r'"
proof -
  have keys: "map fst r' = map fst r" by (rule forEach_write_job_keys[OF assms(2)])
  with assms(1) have d: "distinct (map fst r')" by (simp add: indexed_def Object_keys_def)
  have "k = property_key (id_job t')" if "(k, t') \<in> set r'" for k t'
  proof -
    from that d have "map_of r' k = Some t'" by simp
    with forEach_write_job_map_of[OF assms(2), of k]
    obtain t where t: "map_of r k = Some t"
      and t': "t' = fold overwrite (filter (\<lambda>w. target w = k) ws) t"
      by (cases "map_of r k") auto
    from t have "(k, t) \<in> set r" by (rule map_of_SomeD)
    then have "k = property_key (id_job t)" by (rule indexed_key[OF assms(1)])
    with t' show ?thesis by (simp add: id_job_fold_overwrite)
  qed
  with d show ?thesis by (auto simp: indexed_def Object_keys_def list_all_iff)
qed

lemma terminal_not_asked:
  assumes "indexed r" "(k, t) \<in> set r" "terminal (status t)"
  shows "Some k \<notin> set (getRunningJobs r)"
proof
  assume "Some k \<in> set (getRunningJobs r)"
  then obtain k2 t2 where in2: "(k2, t2) \<in> set r" and id2: "id_job t2 = Some k"
    and st: "status t2 = QUEUED \<or> status t2 = RUNNING"
    by (auto simp: getRunningJobs_def Object_values_def)
  have "k2 = property_key (id_job t2)" by (rule indexed_key[OF assms(1) in2])
  with id2 have "k2 = k" by (simp add: property_key_def)
  with in2 have "(k, t2) \<in> set r" by simp
  then have "map_of r k = Some t2" by (rule indexed_lookup[OF assms(1)])
  moreover have "map_of r k = Some t" by (rule indexed_lookup[OF assms(1,2)])
  ultimately have "t2 = t" by simp
  with st assms(3) show False by (auto simp: terminal_def)
qed

lemma poll_answered_jobIndex:
  assumes "distinct (map fst (jobIndex s))"
  shows "jobIndex (poll_answered r s) = jobIndex s
       \<or> (\<exists>out ws. r = Inr out \<and> set ws \<subseteq> set (writes out)
             \<and> forEach write_job ws (jobIndex s) = Inr (jobIndex (poll_answered r s)))"
proof (cases r)
  case (Inl err)
  then show ?thesis
    by (simp add: poll_answered_def batchGetQueryExecution_callback_def interval_settled_def)
next
  case (Inr out)
  show ?thesis
  proof (cases "forEach write_job (map Reported (QueryExecutions out)) (jobIndex s)")
    case (Inl e)
    with Inr show ?thesis
      by (simp add: poll_answered_def batchGetQueryExecution_callback_def interval_settled_def
          monitor_item_write forEach_map)
  next
    case r1: (Inr r1)
    then have d1: "distinct (map fst r1)"
      using assms forEach_write_job_keys by metis
    show ?thesis
    proof (cases "forEach (\<lambda>i. write_job (Refused i)) (UnprocessedQueryExecutionIds out) r1")
      case (Inl e)
      then have "jobIndex (poll_answered r s) = r1"
        using Inr r1 forEach_consolidate_failed[of "UnprocessedQueryExecutionIds out" r1]
        by (simp add: poll_answered_def batchGetQueryExecution_callback_def
            interval_settled_def monitor_item_write forEach_map consolidateJobs_def
            first_loop_defined[OF d1] Let_def)
      moreover have "set (map Reported (QueryExecutions out)) \<subseteq> set (writes out)"
        by (auto simp: writes_def)
      ultimately show ?thesis using Inr r1 by blast
    next
      case r2: (Inr r2)
      then have "jobIndex (poll_answered r s) = r2"
        using Inr r1 forEach_consolidate_failed[of "UnprocessedQueryExecutionIds out" r1]
        by (simp add: poll_answered_def batchGetQueryExecution_callback_def
            interval_settled_def monitor_item_write forEach_map consolidateJobs_def
            first_loop_defined[OF d1] Let_def draw_defined)
      moreover have "forEach write_job (writes out) (jobIndex s) = Inr r2"
        using r1 r2 by (simp add: writes_def forEach_append forEach_map)
      ultimately show ?thesis using Inr by blast
    qed
  qed
qed

lemma list_all_update:
  "P (k, v) \<Longrightarrow> list_all P al \<Longrightarrow> list_all P (AList.update k v al)"
  by (induction al) auto

lemma indexed_update:
  assumes "indexed r" shows "indexed (AList.update (property_key (id_job t)) t r)"
proof -
  from assms have "list_all (\<lambda>(k, t). k = property_key (id_job t)) r"
    by (simp add: indexed_def)
  then have "list_all (\<lambda>(k, t). k = property_key (id_job t))
               (AList.update (property_key (id_job t)) t r)"
    by (intro list_all_update) simp_all
  with assms show ?thesis
    by (simp add: indexed_def Object_keys_def distinct_update)
qed

lemma indexed_indexTasks: "indexed (indexTasks tasks)"
proof -
  have "indexed (fold (\<lambda>task idx. AList.update (property_key (id_job task)) task idx) tasks r)"
    if "indexed r" for r
    using that by (induction tasks arbitrary: r) (simp_all add: indexed_update)
  moreover have "indexed []" by (simp add: indexed_def Object_keys_def)
  ultimately show ?thesis by (simp add: indexTasks_def)
qed

lemma poll_answered_applied:
  assumes "apply_results out (jobIndex s) = Inr r'"
  shows "poll_answered (Inr out) s = s\<lparr>jobIndex := r', INDEX_assigned := True, polls := polls s - 1\<rparr>"
  using assms
  by (auto simp: poll_answered_def apply_results_def interval_settled_def Let_def
      batchGetQueryExecution_callback_def split: sum.splits settled.splits option.splits)

lemma step_PollAnswer:
  "process s = Running \<Longrightarrow> 0 < polls s \<Longrightarrow> step (PollAnswer r) s = poll_answered r s"
  by (simp add: step_def)

lemma cycle_first_poll:
  "cycle (\<lambda>ids. Inr first_poll) (run first_refused three_files) =
     after_first_cycle"
proof -
  let ?s0 = "run first_refused three_files"
  let ?s1 = "step Tick ?s0"
  have s1: "?s1 = ?s0\<lparr>calls := [BatchGetQueryExecution [Some ''q2'', Some ''q3'']], polls := 1\<rparr>"
    by (rule Tick_first_refused)
  have "cycle (\<lambda>ids. Inr first_poll) ?s0 = step (PollAnswer (Inr first_poll)) ?s1"
    by (simp add: cycle_def s1 run_fields)
  also have "\<dots> = poll_answered (Inr first_poll) ?s1"
    by (rule step_PollAnswer) (simp_all add: s1 run_fields)
  also have "\<dots> = ?s1\<lparr>jobIndex := after_first_poll, INDEX_assigned := True,
                      polls := polls ?s1 - 1\<rparr>"
    by (rule poll_answered_applied) (simp add: s1 apply_first_poll)
  also have "\<dots> = ?s0\<lparr>jobIndex := after_first_poll, INDEX_assigned := True,
        calls := [BatchGetQueryExecution [Some ''q2'', Some ''q3'']]\<rparr>"
    by (simp add: s1) (simp add: run_def)
  also have "\<dots> = after_first_cycle"
    by (simp add: run_def after_first_cycle_def)
  finally show ?thesis .
qed

lemmas handlers = run_events_def step_def timer_fires_def poll_answered_def SIGINT_def
  stop_answered_def interval_settled_def finishUp_def batchGetQueryExecution_callback_def
  monitor_item_def consolidateJobs_def consolidate_failed_def draw_def getRunningJobs_def
  Object_values_def Object_keys_def Let_def

lemma first_cycle_events:
  "run_events (Tick # PollAnswer (Inr first_poll) # es) (run first_refused three_files)
     = run_events es after_first_cycle"
  using cycle_first_poll
  by (simp add: cycle_def run_events_def Tick_first_refused run_fields)

lemma calls_interval_settled: "calls (interval_settled m s) = calls s"
  by (auto simp: interval_settled_def finishUp_def Let_def
      split: settled.splits option.splits sum.splits)

lemma calls_poll_answered: "calls (poll_answered r s) = calls s"
  by (simp add: poll_answered_def calls_interval_settled)

lemma requested_since_calls: "calls s' = calls s \<Longrightarrow> requested_since n s' = requested_since n s"
  by (simp add: requested_since_def)

lemma in_batched_ids:
  "i \<in> set (concat (List.map_filter
       (\<lambda>c. case c of BatchGetQueryExecution ids \<Rightarrow> Some ids | _ \<Rightarrow> None) cs))
   \<longleftrightarrow> (\<exists>ids. BatchGetQueryExecution ids \<in> set cs \<and> i \<in> set ids)"
  by (induction cs) (auto split: call.splits)

lemma in_requested_since:
  "i \<in> set (requested_since n s)
   \<longleftrightarrow> (\<exists>ids. BatchGetQueryExecution ids \<in> set (drop n (calls s)) \<and> i \<in> set ids)"
  unfolding requested_since_def by (rule in_batched_ids)

lemma requested_since_more:
  assumes "calls s' = calls s @ cs"
  shows "set (requested_since n s')
           \<subseteq> set (requested_since n s) \<union> {i. \<exists>ids. BatchGetQueryExecution ids \<in> set cs \<and> i \<in> set ids}"
proof
  fix i
  assume "i \<in> set (requested_since n s')"
  then obtain ids where c: "BatchGetQueryExecution ids \<in> set (drop n (calls s @ cs))"
    and i: "i \<in> set ids"
    using assms unfolding in_requested_since by auto
  from c have "BatchGetQueryExecution ids \<in> set (drop n (calls s))
      \<or> BatchGetQueryExecution ids \<in> set (drop (n - length (calls s)) cs)"
    by simp
  then have "BatchGetQueryExecution ids \<in> set (drop n (calls s))
      \<or> BatchGetQueryExecution ids \<in> set cs"
    using set_drop_subset[of "n - length (calls s)" cs] by blast
  with i show "i \<in> set (requested_since n s) \<union> {i. \<exists>ids. BatchGetQueryExecution ids \<in> set cs \<and> i \<in> set ids}"
    by (auto simp: in_requested_since)
qed

lemma step_indexed: "indexed (jobIndex s) \<Longrightarrow> indexed (jobIndex (step e s))"
proof (cases e)
  case Tick
  then show "indexed (jobIndex s) \<Longrightarrow> ?thesis"
    by (auto simp: step_def timer_fires_def interval_settled_def finishUp_def Let_def)
next
  case (PollAnswer r)
  assume i: "indexed (jobIndex s)"
  then have "distinct (map fst (jobIndex s))" by (simp add: indexed_def Object_keys_def)
  from poll_answered_jobIndex[OF this, of r] i have "indexed (jobIndex (poll_answered r s))"
    by (auto dest: indexed_preserved)
  with i PollAnswer show ?thesis by (simp add: step_def)
next
  case Interrupt
  then show "indexed (jobIndex s) \<Longrightarrow> ?thesis"
    by (auto simp: step_def SIGINT_def finishUp_def Let_def)
next
  case (StopAnswer b err)
  then show "indexed (jobIndex s) \<Longrightarrow> ?thesis"
    by (auto simp: step_def stop_answered_def finishUp_def Let_def)
qed

lemma run_events_indexed: "indexed (jobIndex s) \<Longrightarrow> indexed (jobIndex (run_events es s))"
  by (induction es arbitrary: s) (simp_all add: run_events_def step_indexed)

lemma step_keeps_terminal:
  assumes i: "indexed (jobIndex s)" and m: "(k, t) \<in> set (jobIndex s)" and t: "terminal (status t)"
    and n: "Some k \<notin> set (requested_since n s)"
    and a: "case e of
              PollAnswer (Inr out) \<Rightarrow> list_all (\<lambda>k. Some k \<in> set (requested_since n s)) (mentioned out)
            | _ \<Rightarrow> True"
  shows "(k, t) \<in> set (jobIndex (step e s)) \<and> Some k \<notin> set (requested_since n (step e s))"
proof (cases "process s = Running")
  case False
  with m n show ?thesis by (simp add: step_not_running)
next
  case True
  show ?thesis
  proof (cases e)
    case Tick
    show ?thesis
    proof (cases "getRunningJobs (jobIndex s) = []")
      case empty: True
      with Tick True m n show ?thesis
        by (simp add: step_def timer_fires_def interval_settled_def finishUp_def
            requested_since_def)
    next
      case False
      let ?s' = "step e s"
      from False Tick True have j: "jobIndex ?s' = jobIndex s"
        and c: "calls ?s' = calls s @ [BatchGetQueryExecution (getRunningJobs (jobIndex s))]"
        by (simp_all add: step_def timer_fires_def)
      from terminal_not_asked[OF i m t] requested_since_more[OF c, of n] n
      have "Some k \<notin> set (requested_since n ?s')" by auto
      with j m show ?thesis by simp
    qed
  next
    case (PollAnswer r)
    show ?thesis
    proof (cases "0 < polls s")
      case False
      with PollAnswer True m n show ?thesis by (simp add: step_def)
    next
      case pending: True
      with PollAnswer True have st: "step e s = poll_answered r s" by (simp add: step_def)
      have rs: "requested_since n (poll_answered r s) = requested_since n s"
        by (rule requested_since_calls) (rule calls_poll_answered)
      from i have d: "distinct (map fst (jobIndex s))" by (simp add: indexed_def Object_keys_def)
      from poll_answered_jobIndex[OF d, of r]
      have "(k, t) \<in> set (jobIndex (poll_answered r s))"
      proof
        assume "jobIndex (poll_answered r s) = jobIndex s"
        with m show ?thesis by simp
      next
        assume "\<exists>out ws. r = Inr out \<and> set ws \<subseteq> set (writes out)
             \<and> forEach write_job ws (jobIndex s) = Inr (jobIndex (poll_answered r s))"
        then obtain out ws where r: "r = Inr out" and ws: "set ws \<subseteq> set (writes out)"
          and w: "forEach write_job ws (jobIndex s) = Inr (jobIndex (poll_answered r s))"
          by blast
        from a PollAnswer r
        have "\<forall>k' \<in> set (mentioned out). Some k' \<in> set (requested_since n s)"
          by (simp add: list_all_iff)
        with n have "k \<notin> set (mentioned out)" by blast
        moreover have "target ` set ws \<subseteq> set (mentioned out)"
          using ws targets_writes[of out] by (metis image_mono set_map)
        ultimately have "k \<notin> target ` set ws" by blast
        then have "map_of (jobIndex (poll_answered r s)) k = map_of (jobIndex s) k"
          by (rule not_written[OF w])
        also have "\<dots> = Some t" by (rule indexed_lookup[OF i m])
        finally show ?thesis by (rule map_of_SomeD)
      qed
      with st rs n show ?thesis by simp
    qed
  next
    case Interrupt
    let ?s' = "step e s"
    from Interrupt True have j: "jobIndex ?s' = jobIndex s"
      by (auto simp: step_def SIGINT_def finishUp_def Let_def)
    from Interrupt True
    have "calls ?s' = calls s @ (if INDEX_assigned s
             then map StopQueryExecution (getRunningJobs (jobIndex s)) else [])"
      by (auto simp: step_def SIGINT_def finishUp_def Let_def)
    from requested_since_more[OF this, of n] n
    have "Some k \<notin> set (requested_since n ?s')" by (auto split: if_splits)
    with j m show ?thesis by simp
  next
    case (StopAnswer b err)
    with True have "jobIndex (step e s) = jobIndex s" "calls (step e s) = calls s"
      by (auto simp: step_def stop_answered_def finishUp_def Let_def)
    with m n requested_since_calls[of "step e s" s n] show ?thesis by simp
  qed
qed

lemma events_keep_terminal:
  "indexed (jobIndex s) \<Longrightarrow> (k, t) \<in> set (jobIndex s) \<Longrightarrow> terminal (status t) \<Longrightarrow>
   Some k \<notin> set (requested_since n s) \<Longrightarrow> answers_since n es s \<Longrightarrow>
   (k, t) \<in> set (jobIndex (run_events es s))"
proof (induction es arbitrary: s)
  case Nil
  then show ?case by (simp add: run_events_def)
next
  case (Cons e es)
  from Cons.prems(5) have a: "case e of
              PollAnswer (Inr out) \<Rightarrow> list_all (\<lambda>k. Some k \<in> set (requested_since n s)) (mentioned out)
            | _ \<Rightarrow> True"
    and rest: "answers_since n es (step e s)" by simp_all
  from step_keeps_terminal[OF Cons.prems(1-4) a]
  have m: "(k, t) \<in> set (jobIndex (step e s))"
    and n: "Some k \<notin> set (requested_since n (step e s))" by simp_all
  from Cons.IH[OF step_indexed[OF Cons.prems(1)] m Cons.prems(3) n rest]
  show ?case by (simp add: run_events_Cons)
qed

lemma two_ticks_first_answer:
  "run_events (Tick # Tick # PollAnswer (Inr first_poll) # es) (run first_refused three_files)
     = run_events es
         (after_first_cycle
            \<lparr>calls := [BatchGetQueryExecution [Some ''q2'', Some ''q3''],
                       BatchGetQueryExecution [Some ''q2'', Some ''q3'']],
             polls := 1\<rparr>)"
proof -
  let ?s0 = "run first_refused three_files"
  let ?b = "BatchGetQueryExecution [Some ''q2'', Some ''q3'']"
  let ?s1 = "?s0\<lparr>calls := [?b], polls := 1\<rparr>"
  let ?s2 = "?s0\<lparr>calls := [?b, ?b], polls := 2\<rparr>"
  have s1: "step Tick ?s0 = ?s1"
    by (rule Tick_first_refused)
  have s2: "step Tick ?s1 = ?s2"
    by (simp add: step_def timer_fires_def getRunningJobs_def Object_values_def
        jobIndex_first_refused run_fields Let_def)
  have "step (PollAnswer (Inr first_poll)) ?s2 = poll_answered (Inr first_poll) ?s2"
    by (rule step_PollAnswer) (simp_all add: run_fields)
  also have "\<dots> = ?s2\<lparr>jobIndex := after_first_poll, INDEX_assigned := True,
                      polls := polls ?s2 - 1\<rparr>"
    by (rule poll_answered_applied) (simp add: apply_first_poll)
  also have "\<dots> = after_first_cycle\<lparr>calls := [?b, ?b], polls := 1\<rparr>"
    by (simp add: run_def after_first_cycle_def)
  finally have s3: "step (PollAnswer (Inr first_poll)) ?s2
      = after_first_cycle\<lparr>calls := [?b, ?b], polls := 1\<rparr>" .
  show ?thesis
    by (simp only: run_events_def fold.simps comp_apply s1 s2 s3)
qed

text \<open>
  C5, as the claim states it, fails. The timer fires twice before the service answers, so
  two status requests about q2 and q3 are pending. The first answer says that q2 has
  succeeded: q2 is terminal. The second answer, which the service had made up while q2 was
  still running, is applied as it is and q2 is RUNNING again; with an answer in which the
  service could not process q2, q2 becomes FAILED. Each answer names only ids that its
  request asked about.
\<close>

theorem overlapping_cycles_change_terminal_job:
  "calls (run_events [Tick, Tick] (run first_refused three_files))
     = [BatchGetQueryExecution [Some ''q2'', Some ''q3''],
        BatchGetQueryExecution [Some ''q2'', Some ''q3'']]
   \<and> map_option status
        (map_of (jobIndex (run_events [Tick, Tick, PollAnswer (Inr first_poll)]
                             (run first_refused three_files))) ''q2'') = Some SUCCEEDED
   \<and> map_option status
        (map_of (jobIndex (run_events [Tick, Tick, PollAnswer (Inr first_poll),
                                        PollAnswer (Inr stale_poll)]
                             (run first_refused three_files))) ''q2'') = Some RUNNING
   \<and> map_option status
        (map_of (jobIndex (run_events [Tick, Tick, PollAnswer (Inr first_poll),
                                        PollAnswer (Inr q2_unprocessed_poll)]
                             (run first_refused three_files))) ''q2'') = Some FAILED"
proof -
  have "calls (run_events [Tick, Tick] (run first_refused three_files))
     = [BatchGetQueryExecution [Some ''q2'', Some ''q3''],
        BatchGetQueryExecution [Some ''q2'', Some ''q3'']]"
    by (simp add: run_events_def Tick_first_refused)
       (simp add: step_def timer_fires_def getRunningJobs_def Object_values_def
        jobIndex_first_refused run_fields Let_def)
  moreover have "map_option status
        (map_of (jobIndex (run_events [Tick, Tick, PollAnswer (Inr first_poll)]
                             (run first_refused three_files))) ''q2'') = Some SUCCEEDED"
    by (simp add: two_ticks_first_answer)
       (simp add: run_events_def after_first_cycle_def after_first_poll_def)
  moreover have "map_option status
        (map_of (jobIndex (run_events [Tick, Tick, PollAnswer (Inr first_poll),
                                        PollAnswer (Inr stale_poll)]
                             (run first_refused three_files))) ''q2'') = Some RUNNING"
    by (simp add: two_ticks_first_answer)
       (simp add: handlers after_first_cycle_def after_first_poll_def stale_poll_def)
  moreover have "map_option status
        (map_of (jobIndex (run_events [Tick, Tick, PollAnswer (Inr first_poll),
                                        PollAnswer (Inr q2_unprocessed_poll)]
                             (run first_refused three_files))) ''q2'') = Some FAILED"
    by (simp add: two_ticks_first_answer)
       (simp add: handlers after_first_cycle_def after_first_poll_def q2_unprocessed_poll_def)
  ultimately show ?thesis by (simp only: simp_thms)
qed

text \<open>
  C5, amended. At some point of the run a job is terminal. Through all the events that
  follow, in any order and with polling cycles that overlap, the job stays in the
  dictionary under its key with every property as it was, provided that every successful
  answer to a status request that is handled after that point names only ids that status
  requests made after that point have asked about.
\<close>

theorem terminal_jobs_frozen:
  assumes "(k, t) \<in> set (jobIndex (run_events before (run athena files)))"
    and "terminal (status t)"
    and "answers_since (length (calls (run_events before (run athena files)))) later
           (run_events before (run athena files))"
  shows "(k, t) \<in> set (jobIndex (run_events (before @ later) (run athena files)))
       \<and> map_of (jobIndex (run_events (before @ later) (run athena files))) k = Some t"
proof -
  let ?s = "run_events before (run athena files)"
  have "indexed (jobIndex (run athena files))" by (simp add: run_def indexed_indexTasks)
  then have i: "indexed (jobIndex ?s)" by (rule run_events_indexed)
  have n: "Some k \<notin> set (requested_since (length (calls ?s)) ?s)"
    by (simp add: requested_since_def)
  have m: "(k, t) \<in> set (jobIndex (run_events later ?s))"
    by (rule events_keep_terminal[OF i assms(1,2) n assms(3)])
  moreover have "indexed (jobIndex (run_events later ?s))" using i by (rule run_events_indexed)
  ultimately have "map_of (jobIndex (run_events later ?s)) k = Some t"
    by (rule indexed_lookup[rotated])
  with m show ?thesis by (simp add: run_events_def)
qed

theorem terminal_jobs_frozen_witness:
  "(''q2'', \<lparr>name = ''unit2.sql'', query = ''select 2'', id_job = Some ''q2'',
             status = SUCCEEDED, error = None, starttime = Some (Date 1551434400000),
             endtime = Some (Date 1551434402000), runtime = Some 1200, scanned = Some 2048\<rparr>)
     \<in> set (jobIndex (run_events [Tick, PollAnswer (Inr first_poll)]
                         (run first_refused three_files)))
   \<and> answers_since
        (length (calls (run_events [Tick, PollAnswer (Inr first_poll)]
                          (run first_refused three_files))))
        [Tick, Tick, PollAnswer (Inr late_poll), PollAnswer (Inr second_poll)]
        (run_events [Tick, PollAnswer (Inr first_poll)] (run first_refused three_files))
   \<and> map_of (jobIndex (run_events [Tick, PollAnswer (Inr first_poll), Tick, Tick,
                                    PollAnswer (Inr late_poll), PollAnswer (Inr second_poll)]
                         (run first_refused three_files))) ''q2''
       = Some \<lparr>name = ''unit2.sql'', query = ''select 2'', id_job = Some ''q2'',
               status = SUCCEEDED, error = None, starttime = Some (Date 1551434400000),
               endtime = Some (Date 1551434402000), runtime = Some 1200, scanned = Some 2048\<rparr>"
proof -
  let ?before = "[Tick, PollAnswer (Inr first_poll)]"
  let ?later = "[Tick, Tick, PollAnswer (Inr late_poll), PollAnswer (Inr second_poll)]"
  let ?t = "\<lparr>name = ''unit2.sql'', query = ''select 2'', id_job = Some ''q2'',
             status = SUCCEEDED, error = None, starttime = Some (Date 1551434400000),
             endtime = Some (Date 1551434402000), runtime = Some 1200, scanned = Some 2048\<rparr>"
  have s: "run_events ?before (run first_refused three_files) = after_first_cycle"
    using first_cycle_events[of "[]"] by (simp add: run_events_def)
  have a: "(''q2'', ?t) \<in> set (jobIndex (run_events ?before (run first_refused three_files)))"
    by (simp add: s after_first_cycle_def after_first_poll_def)
  have b: "terminal (status ?t)" by (simp add: terminal_def)
  have "answers_since (length (calls after_first_cycle)) ?later after_first_cycle"
    by (simp add: handlers requested_since_def mentioned_def after_first_cycle_def
        after_first_poll_def late_poll_def second_poll_def)
  then have c: "answers_since (length (calls (run_events ?before (run first_refused three_files))))
        ?later (run_events ?before (run first_refused three_files))"
    by (simp only: s)
  from terminal_jobs_frozen[OF a b c] a c show ?thesis by simp
qed

section \<open>The interrupt\<close>

lemma step_cancels:
  assumes "process (step e s) = Running" "b < length (cancels s)" "0 < cancels s ! b"
  shows "b < length (cancels (step e s))
       \<and> cancels (step e s) ! b = (if (\<exists>err. e = StopAnswer b err) then cancels s ! b - 1 else cancels s ! b)
       \<and> 0 < cancels (step e s) ! b"
proof (cases e)
  case Tick
  with assms show ?thesis
    by (auto simp: step_def timer_fires_def interval_settled_def finishUp_def Let_def
        split: if_splits)
next
  case (PollAnswer r)
  with assms show ?thesis
    by (auto simp: step_def poll_answered_def interval_settled_def finishUp_def Let_def
        split: if_splits settled.splits option.splits sum.splits)
next
  case Interrupt
  with assms show ?thesis
    by (auto simp: step_def SIGINT_def finishUp_def Let_def nth_append split: if_splits)
next
  case (StopAnswer b' err)
  with assms show ?thesis
    by (cases "b' = b")
      (auto simp: step_def stop_answered_def finishUp_def Let_def split: if_splits)
qed

lemma stop_answers_Cons:
  "stop_answers b (e # es) = (if (\<exists>err. e = StopAnswer b err) then Suc (stop_answers b es) else stop_answers b es)"
  by (cases e) (auto simp: stop_answers_def)

lemma ends_by_answers:
  "b < length (cancels s) \<Longrightarrow> 0 < cancels s ! b \<Longrightarrow> cancels s ! b \<le> stop_answers b es \<Longrightarrow>
   process (run_events es s) \<noteq> Running"
proof (induction es arbitrary: s)
  case Nil
  then show ?case by (simp add: stop_answers_def)
next
  case (Cons e es)
  show ?case
  proof (cases "process (step e s) = Running")
    case False
    then show ?thesis by (simp add: run_events_Cons run_events_not_running)
  next
    case True
    note c = step_cancels[OF True Cons.prems(1,2)]
    from c Cons.prems(3) have "cancels (step e s) ! b \<le> stop_answers b es"
      by (auto simp: stop_answers_Cons split: if_splits)
    with Cons.IH[of "step e s"] c show ?thesis by (simp add: run_events_Cons)
  qed
qed

lemma SIGINT_requests:
  assumes "process s = Running" "INDEX_assigned s" "getRunningJobs (jobIndex s) \<noteq> []"
  shows "step Interrupt s =
           s\<lparr>calls := calls s @ map StopQueryExecution (getRunningJobs (jobIndex s)),
             cancels := cancels s @ [length (getRunningJobs (jobIndex s))]\<rparr>"
  using assms by (simp add: step_def SIGINT_def Let_def)

lemma SIGINT_finishes:
  assumes "process s = Running" "INDEX_assigned s" "getRunningJobs (jobIndex s) = []"
  shows "step Interrupt s = finishUp (jobIndex s) s"
  using assms by (simp add: step_def SIGINT_def Let_def)

lemma poll_answered_calls_cancels:
  "poll_answered r (s\<lparr>calls := cs, cancels := ns\<rparr>)
     = (poll_answered r s)\<lparr>calls := cs, cancels := ns\<rparr>"
  by (simp add: poll_answered_def interval_settled_def finishUp_def Let_def
      split: settled.splits option.splits sum.splits)

text \<open>
  C3, as the claim states it, fails. The run has gone through one cycle (q2 succeeded, q3
  running) when the interrupt comes; the handler asks for q3 to be stopped and the process
  goes on running. Before the answer to that request the timer fires: a new batched status
  request is made, after the interrupt, and its answer (q3 cancelled) is written to the
  dictionary. Likewise with a status request that was pending at the interrupt: its answer
  (q3 succeeded) is written to the dictionary after the interrupt.
\<close>

theorem polling_continues_after_interrupt:
  "process (run_events [Tick, PollAnswer (Inr first_poll), Interrupt]
             (run first_refused three_files)) = Running
   \<and> calls (run_events [Tick, PollAnswer (Inr first_poll), Interrupt, Tick]
             (run first_refused three_files))
       = [BatchGetQueryExecution [Some ''q2'', Some ''q3''], StopQueryExecution (Some ''q3''),
          BatchGetQueryExecution [Some ''q3'']]
   \<and> map_option status
        (map_of (jobIndex (run_events [Tick, PollAnswer (Inr first_poll), Interrupt]
                             (run first_refused three_files))) ''q3'') = Some RUNNING
   \<and> map_option status
        (map_of (jobIndex (run_events [Tick, PollAnswer (Inr first_poll), Interrupt, Tick,
                                        PollAnswer (Inr cancelled_poll)]
                             (run first_refused three_files))) ''q3'') = Some CANCELLED
   \<and> map_option status
        (map_of (jobIndex (run_events [Tick, PollAnswer (Inr first_poll), Tick, Interrupt,
                                        PollAnswer (Inr late_poll)]
                             (run first_refused three_files))) ''q3'') = Some SUCCEEDED"
  by (simp add: first_cycle_events)
     (simp add: handlers after_first_cycle_def after_first_poll_def cancelled_poll_def
       late_poll_def)

text \<open>
  C3, amended. The process is running and \<open>INDEX\<close> has been assigned when the interrupt
  comes. The handler does not stop the polling. With no queued or running job it writes the
  document and ends the process at once. Otherwise it makes one cancellation request for
  each id of a queued or running job and changes nothing else: the process goes on running,
  a tick of the timer after the interrupt makes a batched status request for those ids as
  it would have without the interrupt, and the answer to a status request that is pending
  at the interrupt is handled exactly as it would have been without the interrupt. Polling
  ends with the process only: whatever events come after the interrupt, ticks and answers
  to status requests among them, once as many answers to the handler's cancellation
  requests have come as it made requests, the process has ended. (The handler's requests
  are those of its run number \<open>length (cancels s)\<close>.)
\<close>

theorem polling_ends_with_the_process:
  assumes "process s = Running" and "INDEX_assigned s"
  shows "(getRunningJobs (jobIndex s) = [] \<longrightarrow> step Interrupt s = finishUp (jobIndex s) s)
       \<and> (getRunningJobs (jobIndex s) \<noteq> [] \<longrightarrow>
            step Interrupt s =
              s\<lparr>calls := calls s @ map StopQueryExecution (getRunningJobs (jobIndex s)),
                cancels := cancels s @ [length (getRunningJobs (jobIndex s))]\<rparr>
          \<and> step Tick (step Interrupt s) =
              (step Interrupt s)
                \<lparr>calls := calls (step Interrupt s)
                            @ [BatchGetQueryExecution (getRunningJobs (jobIndex s))],
                 polls := Suc (polls s)\<rparr>
          \<and> (0 < polls s \<longrightarrow>
               step (PollAnswer r) (step Interrupt s) =
                 (step (PollAnswer r) s)
                   \<lparr>calls := calls s @ map StopQueryExecution (getRunningJobs (jobIndex s)),
                    cancels := cancels s @ [length (getRunningJobs (jobIndex s))]\<rparr>))
       \<and> (length (getRunningJobs (jobIndex s)) \<le> stop_answers (length (cancels s)) es \<longrightarrow>
            process (run_events (Interrupt # es) s) \<noteq> Running)"
proof -
  let ?ids = "getRunningJobs (jobIndex s)"
  let ?s1 = "s\<lparr>calls := calls s @ map StopQueryExecution ?ids,
               cancels := cancels s @ [length ?ids]\<rparr>"
  have none: "step Interrupt s = finishUp (jobIndex s) s" if "?ids = []"
    using assms that by (rule SIGINT_finishes)
  have some: "step Interrupt s = ?s1" if "?ids \<noteq> []"
    using assms that by (rule SIGINT_requests)
  have tick: "step Tick ?s1 = ?s1\<lparr>calls := calls ?s1 @ [BatchGetQueryExecution ?ids],
                                   polls := Suc (polls s)\<rparr>" if "?ids \<noteq> []"
    using assms(1) that by (simp add: step_def timer_fires_def Let_def)
  have answer: "step (PollAnswer r) ?s1 = (step (PollAnswer r) s)
      \<lparr>calls := calls s @ map StopQueryExecution ?ids, cancels := cancels s @ [length ?ids]\<rparr>"
    if "0 < polls s"
    using assms(1) that by (simp add: step_def poll_answered_calls_cancels)
  have ended: "process (run_events (Interrupt # es) s) \<noteq> Running"
    if le: "length ?ids \<le> stop_answers (length (cancels s)) es"
  proof (cases "?ids = []")
    case True
    then have "process (step Interrupt s) \<noteq> Running"
      by (simp add: none finishUp_def)
    then show ?thesis by (simp add: run_events_Cons run_events_not_running)
  next
    case False
    then have c: "cancels (step Interrupt s) = cancels s @ [length ?ids]"
      by (simp add: some)
    from False have "0 < length ?ids" by simp
    with c le show ?thesis
      using ends_by_answers[of "length (cancels s)" "step Interrupt s" es]
      by (simp add: run_events_Cons)
  qed
  show ?thesis
  proof (cases "?ids = []")
    case True
    with none ended show ?thesis by simp
  next
    case False
    note e = some[OF False]
    have t: "step Tick (step Interrupt s) =
               (step Interrupt s)
                 \<lparr>calls := calls (step Interrupt s) @ [BatchGetQueryExecution ?ids],
                  polls := Suc (polls s)\<rparr>"
      unfolding e by (rule tick[OF False])
    have a: "0 < polls s \<longrightarrow>
               step (PollAnswer r) (step Interrupt s) =
                 (step (PollAnswer r) s)
                   \<lparr>calls := calls s @ map StopQueryExecution ?ids,
                    cancels := cancels s @ [length ?ids]\<rparr>"
      unfolding e using answer by blast
    from False e t a ended show ?thesis
      by blast
  qed
qed

theorem polling_ends_with_the_process_witness:
  "process (step Tick after_first_cycle) = Running
   \<and> INDEX_assigned (step Tick after_first_cycle)
   \<and> getRunningJobs (jobIndex (step Tick after_first_cycle)) = [Some ''q3'']
   \<and> 0 < polls (step Tick after_first_cycle)
   \<and> length (getRunningJobs (jobIndex (step Tick after_first_cycle)))
        \<le> stop_answers (length (cancels (step Tick after_first_cycle))) [Tick, StopAnswer 0 None]
   \<and> process (step Interrupt (step Tick after_first_cycle)) = Running
   \<and> calls (step Tick (step Interrupt (step Tick after_first_cycle)))
       = [BatchGetQueryExecution [Some ''q2'', Some ''q3''], BatchGetQueryExecution [Some ''q3''],
          StopQueryExecution (Some ''q3''), BatchGetQueryExecution [Some ''q3'']]
   \<and> jobIndex (step (PollAnswer (Inr late_poll)) (step Interrupt (step Tick after_first_cycle)))
       = jobIndex (step (PollAnswer (Inr late_poll)) (step Tick after_first_cycle))
   \<and> process (run_events [Interrupt, Tick, StopAnswer 0 None] (step Tick after_first_cycle))
       \<noteq> Running"
proof -
  let ?s = "step Tick after_first_cycle"
  have s: "?s = \<lparr>jobIndex = after_first_poll, INDEX_assigned = True, process = Running,
      results_json = None,
      calls = [BatchGetQueryExecution [Some ''q2'', Some ''q3''],
               BatchGetQueryExecution [Some ''q3'']],
      polls = 1, cancels = []\<rparr>"
    by (simp add: step_def timer_fires_def getRunningJobs_def Object_values_def Let_def
        after_first_cycle_def after_first_poll_def)
  have a: "process ?s = Running" and b: "INDEX_assigned ?s" and p: "0 < polls ?s"
    and cs: "calls ?s = [BatchGetQueryExecution [Some ''q2'', Some ''q3''],
               BatchGetQueryExecution [Some ''q3'']]"
    by (simp_all add: s)
  have ids: "getRunningJobs (jobIndex ?s) = [Some ''q3'']"
    by (simp add: s getRunningJobs_def Object_values_def after_first_poll_def)
  have c: "length (getRunningJobs (jobIndex ?s))
             \<le> stop_answers (length (cancels ?s)) [Tick, StopAnswer 0 None]"
    by (simp add: ids) (simp add: s stop_answers_def)
  note th = polling_ends_with_the_process[OF a b, of "Inr late_poll" "[Tick, StopAnswer 0 None]"]
  have ne: "getRunningJobs (jobIndex ?s) \<noteq> []"
    by (simp add: ids)
  from th ne have i: "step Interrupt ?s =
      ?s\<lparr>calls := calls ?s @ map StopQueryExecution (getRunningJobs (jobIndex ?s)),
         cancels := cancels ?s @ [length (getRunningJobs (jobIndex ?s))]\<rparr>"
    by blast
  from th ne have t: "step Tick (step Interrupt ?s) =
      (step Interrupt ?s)
        \<lparr>calls := calls (step Interrupt ?s)
                    @ [BatchGetQueryExecution (getRunningJobs (jobIndex ?s))],
         polls := Suc (polls ?s)\<rparr>"
    by blast
  from th ne p have r: "step (PollAnswer (Inr late_poll)) (step Interrupt ?s) =
      (step (PollAnswer (Inr late_poll)) ?s)
        \<lparr>calls := calls ?s @ map StopQueryExecution (getRunningJobs (jobIndex ?s)),
         cancels := cancels ?s @ [length (getRunningJobs (jobIndex ?s))]\<rparr>"
    by blast
  from th c have e: "process (run_events [Interrupt, Tick, StopAnswer 0 None] ?s) \<noteq> Running"
    by blast
  have 1: "process (step Interrupt ?s) = Running"
    by (simp add: i a)
  have 2: "calls (step Tick (step Interrupt ?s))
       = [BatchGetQueryExecution [Some ''q2'', Some ''q3''], BatchGetQueryExecution [Some ''q3''],
          StopQueryExecution (Some ''q3''), BatchGetQueryExecution [Some ''q3'']]"
    by (simp add: t) (simp add: i cs ids)
  have 3: "jobIndex (step (PollAnswer (Inr late_poll)) (step Interrupt ?s))
       = jobIndex (step (PollAnswer (Inr late_poll)) ?s)"
    by (simp add: r)
  from a b ids p c 1 2 3 e show ?thesis
    by blast
qed

lemma stop_requests_append: "stop_requests (cs @ cs') = stop_requests cs @ stop_requests cs'"
  by (simp add: stop_requests_def List.map_filter_def)

lemma stop_requests_map: "stop_requests (map StopQueryExecution ids) = ids"
  by (induction ids) (simp_all add: stop_requests_def)

lemma awaiting_stop_answers:
  assumes "process t = Running" and "b < length (cancels t)" and "0 < cancels t ! b"
    and "getRunningJobs (jobIndex t) \<noteq> []" and "ticks_and_answers b es"
  shows "jobIndex (run_events es t) = jobIndex t
       \<and> stop_requests (calls (run_events es t)) = stop_requests (calls t)
       \<and> (stop_answers b es < cancels t ! b \<longrightarrow>
            process (run_events es t) = Running \<and> results_json (run_events es t) = results_json t)
       \<and> (cancels t ! b \<le> stop_answers b es \<longrightarrow>
            process (run_events es t) = Exited 0
            \<and> results_json (run_events es t) = Some (JSON_stringify (Object_values (jobIndex t))))"
  using assms
proof (induction es arbitrary: t)
  case Nil
  then show ?case by (simp add: run_events_def stop_answers_def)
next
  case (Cons e es)
  from Cons.prems(5) have rest: "ticks_and_answers b es"
    by (simp add: ticks_and_answers_def)
  from Cons.prems(5) consider "e = Tick" | err where "e = StopAnswer b err"
    by (cases e) (auto simp: ticks_and_answers_def)
  then show ?case
  proof cases
    case 1
    let ?t1 = "t\<lparr>calls := calls t @ [BatchGetQueryExecution (getRunningJobs (jobIndex t))],
                 polls := Suc (polls t)\<rparr>"
    from Cons.prems(1,4) have s: "step e t = ?t1"
      by (simp add: 1 step_def timer_fires_def Let_def)
    have n: "stop_answers b (e # es) = stop_answers b es"
      by (simp add: 1 stop_answers_def)
    from Cons.IH[of ?t1] Cons.prems(1-4) rest show ?thesis
      by (simp add: run_events_Cons s n stop_requests_append) (simp add: stop_requests_def)
  next
    case 2
    have n: "stop_answers b (e # es) = Suc (stop_answers b es)"
      by (simp add: 2 stop_answers_def)
    show ?thesis
    proof (cases "cancels t ! b = 1")
      case True
      with Cons.prems(1-3)
      have s: "step e t = finishUp (jobIndex t) (t\<lparr>cancels := (cancels t)[b := 0]\<rparr>)"
        by (simp add: 2 step_def stop_answered_def Let_def)
      then have "process (step e t) \<noteq> Running" by (simp add: finishUp_def)
      then have "run_events (e # es) t = step e t"
        by (simp add: run_events_Cons run_events_not_running)
      with s True show ?thesis by (simp add: n finishUp_def)
    next
      case False
      let ?t1 = "t\<lparr>cancels := (cancels t)[b := cancels t ! b - 1]\<rparr>"
      from False Cons.prems(1-3) have s: "step e t = ?t1"
        by (simp add: 2 step_def stop_answered_def Let_def)
      from False Cons.prems(1-4) have "process ?t1 = Running" "b < length (cancels ?t1)"
        "0 < cancels ?t1 ! b" "getRunningJobs (jobIndex ?t1) \<noteq> []"
        by simp_all
      from Cons.IH[OF this rest] Cons.prems(2,3) False show ?thesis
        by (auto simp: run_events_Cons s n)
    qed
  qed
qed

text \<open>
  C8, as the claim states it, fails. A status request about q3 is pending when the
  interrupt comes (q3 is running); the handler asks for q3 to be stopped. The answer to the
  status request comes first and says that q3 has succeeded; then the answer to the
  cancellation request, and the handler writes the document: in it q3 has the status
  SUCCEEDED, not the status RUNNING that it had at the interrupt.
\<close>

theorem status_changes_between_interrupt_and_document:
  "map_option status
     (map_of (jobIndex (run_events [Tick, PollAnswer (Inr first_poll), Tick, Interrupt]
                          (run first_refused three_files))) ''q3'') = Some RUNNING
   \<and> calls (run_events [Tick, PollAnswer (Inr first_poll), Tick, Interrupt]
              (run first_refused three_files))
       = [BatchGetQueryExecution [Some ''q2'', Some ''q3''], BatchGetQueryExecution [Some ''q3''],
          StopQueryExecution (Some ''q3'')]
   \<and> process (run_events [Tick, PollAnswer (Inr first_poll), Tick, Interrupt,
                            PollAnswer (Inr late_poll), StopAnswer 0 None]
                 (run first_refused three_files)) = Exited 0
   \<and> results_json (run_events [Tick, PollAnswer (Inr first_poll), Tick, Interrupt,
                                 PollAnswer (Inr late_poll), StopAnswer 0 None]
                      (run first_refused three_files))
       = Some (JArray
           [JObject (fmap_of_list
              [(''name'', JString ''unit1.sql''), (''query'', JString ''select 1''),
               (''status'', JString ''FAILED''), (''error'', JString ''denied'')]),
            JObject (fmap_of_list
              [(''name'', JString ''unit2.sql''), (''query'', JString ''select 2''),
               (''id'', JString ''q2''), (''status'', JString ''SUCCEEDED''),
               (''starttime'', JString ''2019-03-01T10:00:00.000Z''),
               (''endtime'', JString ''2019-03-01T10:00:02.000Z''),
               (''runtime'', JNumber 1200), (''scanned'', JNumber 2048)]),
            JObject (fmap_of_list
              [(''name'', JString ''unit3.sql''), (''query'', JString ''select 3''),
               (''id'', JString ''q3''), (''status'', JString ''SUCCEEDED''),
               (''starttime'', JString ''2019-03-01T10:00:00.000Z''),
               (''endtime'', JString ''2019-03-01T10:00:05.000Z''),
               (''runtime'', JNumber 4100), (''scanned'', JNumber 4096)])])"
  by (simp add: first_cycle_events del: fmap_of_list_simps)
     (simp add: handlers after_first_cycle_def after_first_poll_def late_poll_def
       JSON_stringify_def document del: fmap_of_list_simps)

text \<open>
  C8, amended. The process is running and \<open>INDEX\<close> has been assigned when the interrupt
  comes, and after it only ticks of the timer and answers to the handler's cancellation
  requests are handled (no answer to a status request, no other interrupt). Then
  \<^item> the handler makes one cancellation request for each id of a queued or running job,
    and no other cancellation request is made;
  \<^item> the dictionary stays as it was at the interrupt: no status is set to CANCELLED;
  \<^item> as long as fewer answers to the handler's requests have come than it made requests,
    the process is running and nothing has been written;
  \<^item> once as many answers have come as it made requests, each with an error or without,
    the document has been written from the dictionary as it was at the interrupt and the
    process has exited with code 0. With no queued or running job that is so at the end of
    the handler itself.
\<close>

theorem interrupt_cancels_then_finishes:
  assumes "process s = Running" and "INDEX_assigned s"
    and "ticks_and_answers (length (cancels s)) es"
  shows "stop_requests (calls (run_events (Interrupt # es) s))
           = stop_requests (calls s) @ getRunningJobs (jobIndex s)
       \<and> jobIndex (run_events (Interrupt # es) s) = jobIndex s
       \<and> (stop_answers (length (cancels s)) es < length (getRunningJobs (jobIndex s)) \<longrightarrow>
            process (run_events (Interrupt # es) s) = Running
            \<and> results_json (run_events (Interrupt # es) s) = results_json s)
       \<and> (length (getRunningJobs (jobIndex s)) \<le> stop_answers (length (cancels s)) es \<longrightarrow>
            process (run_events (Interrupt # es) s) = Exited 0
            \<and> results_json (run_events (Interrupt # es) s)
                = Some (JSON_stringify (Object_values (jobIndex s))))"
proof (cases "getRunningJobs (jobIndex s) = []")
  case True
  with assms(1,2) have s: "step Interrupt s = finishUp (jobIndex s) s"
    by (rule SIGINT_finishes)
  then have "process (step Interrupt s) \<noteq> Running" by (simp add: finishUp_def)
  then have "run_events (Interrupt # es) s = step Interrupt s"
    by (simp add: run_events_Cons run_events_not_running)
  with s True show ?thesis by (simp add: finishUp_def)
next
  case False
  let ?ids = "getRunningJobs (jobIndex s)"
  let ?s1 = "s\<lparr>calls := calls s @ map StopQueryExecution ?ids,
               cancels := cancels s @ [length ?ids]\<rparr>"
  from assms(1,2) False have s1: "step Interrupt s = ?s1"
    by (rule SIGINT_requests)
  from assms(1) False have "process ?s1 = Running" "length (cancels s) < length (cancels ?s1)"
    "0 < cancels ?s1 ! length (cancels s)" "getRunningJobs (jobIndex ?s1) \<noteq> []"
    by simp_all
  from awaiting_stop_answers[OF this assms(3)] show ?thesis
    by (simp add: run_events_Cons s1 stop_requests_append stop_requests_map)
qed

theorem interrupt_cancels_then_finishes_witness:
  "process after_first_cycle = Running \<and> INDEX_assigned after_first_cycle
   \<and> ticks_and_answers (length (cancels after_first_cycle))
         [Tick, StopAnswer 0 (Some (ServiceError ''throttled''))]
   \<and> getRunningJobs (jobIndex after_first_cycle) = [Some ''q3'']
   \<and> stop_requests (calls (run_events [Interrupt, Tick,
                                         StopAnswer 0 (Some (ServiceError ''throttled''))]
                               after_first_cycle)) = [Some ''q3'']
   \<and> process (run_events [Interrupt, Tick] after_first_cycle) = Running
   \<and> results_json (run_events [Interrupt, Tick] after_first_cycle) = None
   \<and> process (run_events [Interrupt, Tick, StopAnswer 0 (Some (ServiceError ''throttled''))]
                after_first_cycle) = Exited 0
   \<and> results_json (run_events [Interrupt, Tick,
                                 StopAnswer 0 (Some (ServiceError ''throttled''))]
                     after_first_cycle)
       = Some (JSON_stringify (Object_values after_first_poll))"
proof -
  let ?es = "[Tick, StopAnswer 0 (Some (ServiceError ''throttled''))]"
  have a: "process after_first_cycle = Running" and b: "INDEX_assigned after_first_cycle"
    by (simp_all add: after_first_cycle_def)
  have d: "cancels after_first_cycle = []" "jobIndex after_first_cycle = after_first_poll"
    "calls after_first_cycle = [BatchGetQueryExecution [Some ''q2'', Some ''q3'']]"
    "results_json after_first_cycle = None"
    by (simp_all add: after_first_cycle_def)
  have ids: "getRunningJobs (jobIndex after_first_cycle) = [Some ''q3'']"
    by (simp add: d getRunningJobs_def Object_values_def after_first_poll_def)
  have c: "ticks_and_answers (length (cancels after_first_cycle)) ?es"
    and c': "ticks_and_answers (length (cancels after_first_cycle)) [Tick]"
    by (simp_all add: d ticks_and_answers_def)
  have ids': "getRunningJobs after_first_poll = [Some ''q3'']"
    using ids by (simp add: d)
  have n: "stop_answers 0 ?es = 1" "stop_answers 0 [Tick] = 0"
    by (simp_all add: stop_answers_def)
  have r: "stop_requests [BatchGetQueryExecution [Some ''q2'', Some ''q3'']] = []"
    by (simp add: stop_requests_def)
  from interrupt_cancels_then_finishes[OF a b c]
  have 1: "stop_requests (calls (run_events (Interrupt # ?es) after_first_cycle)) = [Some ''q3'']"
    and 2: "process (run_events (Interrupt # ?es) after_first_cycle) = Exited 0"
    and 3: "results_json (run_events (Interrupt # ?es) after_first_cycle)
              = Some (JSON_stringify (Object_values after_first_poll))"
    by (simp_all add: ids' n r d)
  from interrupt_cancels_then_finishes[OF a b c']
  have 4: "process (run_events [Interrupt, Tick] after_first_cycle) = Running"
    and 5: "results_json (run_events [Interrupt, Tick] after_first_cycle) = None"
    by (simp_all add: ids' n d)
  from a b c ids 1 2 3 4 5 show ?thesis
    by blast
qed

end
